theory Spec2Isabelle
  imports Main "HOL-Library.Word" "HOL-Library.Extended_Nat" "HOL-Library.AList"
    "HOL-Library.Sublist"
begin

unbundle bit_operations_syntax

section \<open>Paths\<close>

text \<open>
  A \<^verbatim>\<open>pathlib.Path\<close> is modelled by the list of its components below the root, so
  \<^verbatim>\<open>/photos/raw/IMG_1.CR2\<close> is \<open>[''photos'', ''raw'', ''IMG_1.CR2'']\<close> and the root is
  \<open>[]\<close>. Two paths are equal when their components are (the POSIX flavour: comparison is
  case-sensitive). Strings are byte strings; \<open>str_lower\<close> lowers ASCII letters.
\<close>

type_synonym path = "string list"

definition name :: "path \<Rightarrow> string" where
  "name p = (if p = [] then [] else last p)"

definition parent :: "path \<Rightarrow> path" where
  "parent p = butlast p"

text \<open>\<^verbatim>\<open>str.rfind('.')\<close>: the index of the last dot, \<open>None\<close> for Python's \<open>-1\<close>.\<close>

definition rfind_dot :: "string \<Rightarrow> nat option" where
  "rfind_dot s =
     (if CHR ''.'' \<in> set s
      then Some (length s - 1 - length (takeWhile (\<lambda>c. c \<noteq> CHR ''.'') (rev s)))
      else None)"

text \<open>
  \<^verbatim>\<open>PurePath.suffix\<close> and \<^verbatim>\<open>PurePath.stem\<close>: the name is cut at its last dot when that
  dot is neither the first nor the last character (\<^verbatim>\<open>0 < i < len(name) - 1\<close>).
\<close>

definition path_suffix :: "path \<Rightarrow> string" where
  "path_suffix p =
     (case rfind_dot (name p) of
        None \<Rightarrow> []
      | Some i \<Rightarrow> if 0 < i \<and> i < length (name p) - 1 then drop i (name p) else [])"

definition stem :: "path \<Rightarrow> string" where
  "stem p =
     (case rfind_dot (name p) of
        None \<Rightarrow> name p
      | Some i \<Rightarrow> if 0 < i \<and> i < length (name p) - 1 then take i (name p) else name p)"

text \<open>
  \<^verbatim>\<open>path / segment\<close> for a segment that is one file name: an empty segment and \<^verbatim>\<open>.\<close>
  leave the path as it is.
\<close>

definition joinpath :: "path \<Rightarrow> string \<Rightarrow> path" where
  "joinpath p s = (if s = [] \<or> s = ''.'' then p else p @ [s])"

definition str_path :: "path \<Rightarrow> string" where
  "str_path p = (if p = [] then ''/'' else concat (map (\<lambda>c. ''/'' @ c) p))"

definition lower_char :: "char \<Rightarrow> char" where
  "lower_char c =
     (if 65 \<le> (of_char c :: nat) \<and> (of_char c :: nat) \<le> 90
      then char_of ((of_char c :: nat) + 32) else c)"

definition str_lower :: "string \<Rightarrow> string" where
  "str_lower s = map lower_char s"

section \<open>Configuration\<close>

definition RAW_EXTENSIONS :: "string set" where
  "RAW_EXTENSIONS =
     {''.cr2'', ''.nef'', ''.arw'', ''.dng'', ''.raf'', ''.orf'', ''.rw2'', ''.pef'', ''.srw''}"

definition JPG_EXTENSIONS :: "string set" where
  "JPG_EXTENSIONS = {''.jpg'', ''.jpeg''}"

definition DEFAULT_SIMILARITY_THRESHOLD :: int where
  "DEFAULT_SIMILARITY_THRESHOLD = 5"

section \<open>Perceptual hashes\<close>

text \<open>
  \<^verbatim>\<open>imagehash.dhash(img, hash_size=HASH_SIZE)\<close> with \<^verbatim>\<open>HASH_SIZE = 16\<close> is a 16 by 16 bit
  array: a word of 256 bits. The difference of two hashes (\<^verbatim>\<open>raw_hash - jpg_hash\<close>) is the
  number of positions where they differ.
\<close>

type_synonym ImageHash = "256 word"

definition hash_sub :: "ImageHash \<Rightarrow> ImageHash \<Rightarrow> nat" where
  "hash_sub a b = length (filter (bit (a XOR b)) [0..<256])"

section \<open>The file system\<close>

text \<open>
  The renamer reads and changes the disk through \<^verbatim>\<open>exists\<close>, \<^verbatim>\<open>is_file\<close>,
  \<^verbatim>\<open>iterdir\<close>, \<^verbatim>\<open>rename\<close> and by writing and reading its JSON log. The disk is a map
  from paths to nodes. Paths are looked up from the root, which is not an entry of the
  map; the folders and files of the renamer lie below it, and an entry of a disk lies
  in a directory. \<open>locked\<close> holds the paths the operating system refuses to rename or
  write (a permission error). The status of an operation is
  the string of the log, \<^verbatim>\<open>'success'\<close> or \<^verbatim>\<open>'error'\<close>; the key \<^verbatim>\<open>'error'\<close> is
  present only in the second case. \<^verbatim>\<open>str(path)\<close> written to the log and
  \<^verbatim>\<open>Path(string)\<close> read back are inverse to each other, so the log keeps the paths
  themselves. A file holds bytes that are not JSON text (\<open>Bytes\<close>), the JSON text of
  a log (\<open>Json\<close>), or the beginning of that text, cut where writing it stopped
  (\<open>TruncatedJson\<close>).
\<close>

record operation =
  old_name :: string
  new_name :: string
  old_path :: path
  new_path :: path
  status :: string
  error :: "string option"

record backup_data =
  timestamp :: string
  raw_folder :: path
  jpg_folder :: path
  operations :: "operation list"

datatype contents = Bytes string | Json backup_data | TruncatedJson backup_data

datatype node = Directory | RegularFile contents

record filesystem =
  entries :: "path \<Rightarrow> node option"
  locked :: "path set"

datatype exn =
    FileNotFoundError string
  | NotADirectoryError string
  | IsADirectoryError string
  | PermissionError string
  | JSONDecodeError string
  | UnicodeEncodeError string
  | UnicodeDecodeError string

fun str_exn :: "exn \<Rightarrow> string" where
  "str_exn (FileNotFoundError m) = m"
| "str_exn (NotADirectoryError m) = m"
| "str_exn (IsADirectoryError m) = m"
| "str_exn (PermissionError m) = m"
| "str_exn (JSONDecodeError m) = m"
| "str_exn (UnicodeEncodeError m) = m"
| "str_exn (UnicodeDecodeError m) = m"

subsection \<open>File names as Python strings\<close>

text \<open>
  A file name is a byte string. Python decodes it as UTF-8 and turns every byte that is
  not part of a well-formed UTF-8 sequence into a lone surrogate (the
  \<^verbatim>\<open>surrogateescape\<close> handler); such a string cannot be encoded as UTF-8 again.
  \<open>utf8_char_length\<close> is the length of the well-formed sequence at the head of a byte
  string, 0 when there is none.
\<close>

definition continuation :: "char \<Rightarrow> bool" where
  "continuation c \<longleftrightarrow> 128 \<le> (of_char c :: nat) \<and> (of_char c :: nat) \<le> 191"

definition second_byte :: "nat \<Rightarrow> char \<Rightarrow> bool" where
  "second_byte lead c =
     (let b = (of_char c :: nat)
      in if lead = 224 then 160 \<le> b \<and> b \<le> 191
         else if lead = 237 then 128 \<le> b \<and> b \<le> 159
         else if lead = 240 then 144 \<le> b \<and> b \<le> 191
         else if lead = 244 then 128 \<le> b \<and> b \<le> 143
         else continuation c)"

fun utf8_char_length :: "string \<Rightarrow> nat" where
  "utf8_char_length [] = 0"
| "utf8_char_length (c # cs) =
     (let b = (of_char c :: nat)
      in if b < 128 then 1
         else if 194 \<le> b \<and> b \<le> 223
         then (case cs of c1 # r \<Rightarrow> if continuation c1 then 2 else 0 | [] \<Rightarrow> 0)
         else if 224 \<le> b \<and> b \<le> 239
         then (case cs of
                 c1 # c2 # r \<Rightarrow> if second_byte b c1 \<and> continuation c2 then 3 else 0
               | _ \<Rightarrow> 0)
         else if 240 \<le> b \<and> b \<le> 244
         then (case cs of
                 c1 # c2 # c3 # r \<Rightarrow>
                   if second_byte b c1 \<and> continuation c2 \<and> continuation c3 then 4 else 0
               | _ \<Rightarrow> 0)
         else 0)"

text \<open>
  \<open>utf8_from k s\<close>: the byte string \<open>s\<close>, whose first \<open>k\<close> bytes end a sequence already
  checked, is well-formed UTF-8. A string can be written to a UTF-8 file exactly when
  \<open>utf8_valid\<close> holds of it.
\<close>

fun utf8_from :: "nat \<Rightarrow> string \<Rightarrow> bool" where
  "utf8_from k [] = True"
| "utf8_from (Suc k) (c # cs) = utf8_from k cs"
| "utf8_from 0 (c # cs) =
     (utf8_char_length (c # cs) \<noteq> 0 \<and> utf8_from (utf8_char_length (c # cs) - 1) cs)"

definition utf8_valid :: "string \<Rightarrow> bool" where
  "utf8_valid s = utf8_from 0 s"

text \<open>
  \<^verbatim>\<open>repr\<close> of a string, which is how a file name appears in the message of an
  \<^verbatim>\<open>OSError\<close>: in single quotes, or in double quotes when the string has a single quote
  and no double quote; a backslash, the quote character, control characters and lone
  surrogates are escaped. Characters outside ASCII are taken to be printable.
\<close>

definition hex_digit :: "nat \<Rightarrow> char" where
  "hex_digit n = ''0123456789abcdef'' ! n"

definition hex2 :: "char \<Rightarrow> string" where
  "hex2 c = [hex_digit ((of_char c :: nat) div 16), hex_digit ((of_char c :: nat) mod 16)]"

definition repr_ascii :: "char \<Rightarrow> char \<Rightarrow> string" where
  "repr_ascii quote c =
     (if c = CHR 0x5C then [CHR 0x5C, CHR 0x5C]
      else if c = quote then [CHR 0x5C, quote]
      else if c = CHR 0x09 then [CHR 0x5C, CHR ''t'']
      else if c = CHR 0x0A then [CHR 0x5C, CHR ''n'']
      else if c = CHR 0x0D then [CHR 0x5C, CHR ''r'']
      else if (of_char c :: nat) < 32 \<or> (of_char c :: nat) = 127
      then [CHR 0x5C, CHR ''x''] @ hex2 c
      else [c])"

fun repr_from :: "char \<Rightarrow> nat \<Rightarrow> string \<Rightarrow> string" where
  "repr_from quote k [] = []"
| "repr_from quote (Suc k) (c # cs) = c # repr_from quote k cs"
| "repr_from quote 0 (c # cs) =
     (if utf8_char_length (c # cs) = 0
      then [CHR 0x5C, CHR ''u'', CHR ''d'', CHR ''c''] @ hex2 c @ repr_from quote 0 cs
      else if utf8_char_length (c # cs) = 1
      then repr_ascii quote c @ repr_from quote 0 cs
      else c # repr_from quote (utf8_char_length (c # cs) - 1) cs)"

definition quote_of :: "string \<Rightarrow> char" where
  "quote_of s = (if CHR 0x27 \<in> set s \<and> CHR 0x22 \<notin> set s then CHR 0x22 else CHR 0x27)"

definition repr_str :: "string \<Rightarrow> string" where
  "repr_str s = [quote_of s] @ repr_from (quote_of s) 0 s @ [quote_of s]"

definition repr_path :: "path \<Rightarrow> string" where
  "repr_path p = repr_str (str_path p)"

subsection \<open>Looking a path up\<close>

definition path_exists :: "filesystem \<Rightarrow> path \<Rightarrow> bool" where
  "path_exists fs p = (entries fs p \<noteq> None)"

definition is_file :: "filesystem \<Rightarrow> path \<Rightarrow> bool" where
  "is_file fs p = (case entries fs p of Some (RegularFile c) \<Rightarrow> True | _ \<Rightarrow> False)"

definition is_dir :: "filesystem \<Rightarrow> path \<Rightarrow> bool" where
  "is_dir fs p = (entries fs p = Some Directory)"

text \<open>
  The operating system walks from the root to the folder of a path. The walk stops at
  the first component that is not a directory: with \<^verbatim>\<open>ENOTDIR\<close> when it is a regular
  file, with \<^verbatim>\<open>ENOENT\<close> when it does not exist. The last component of the path is
  not part of the walk. \<open>walk_errno\<close> is \<open>None\<close> when the walk reaches the folder.
\<close>

datatype errno = ENOENT | ENOTDIR | EISDIR | EACCES | EPERM

fun walk_from :: "filesystem \<Rightarrow> path \<Rightarrow> path \<Rightarrow> errno option" where
  "walk_from fs reached [] = None"
| "walk_from fs reached [last_name] = None"
| "walk_from fs reached (n # m # rest) =
     (case entries fs (reached @ [n]) of
        Some Directory \<Rightarrow> walk_from fs (reached @ [n]) (m # rest)
      | Some (RegularFile c) \<Rightarrow> Some ENOTDIR
      | None \<Rightarrow> Some ENOENT)"

definition walk_errno :: "filesystem \<Rightarrow> path \<Rightarrow> errno option" where
  "walk_errno fs p = walk_from fs [] p"

definition strerror :: "errno \<Rightarrow> string" where
  "strerror e =
     (case e of
        ENOENT \<Rightarrow> ''[Errno 2] No such file or directory''
      | ENOTDIR \<Rightarrow> ''[Errno 20] Not a directory''
      | EISDIR \<Rightarrow> ''[Errno 21] Is a directory''
      | EACCES \<Rightarrow> ''[Errno 13] Permission denied''
      | EPERM \<Rightarrow> ''[Errno 1] Operation not permitted'')"

text \<open>The exception Python raises for an error number, with its message.\<close>

definition os_error :: "errno \<Rightarrow> string \<Rightarrow> exn" where
  "os_error e names =
     (case e of
        ENOENT \<Rightarrow> FileNotFoundError (strerror e @ '': '' @ names)
      | ENOTDIR \<Rightarrow> NotADirectoryError (strerror e @ '': '' @ names)
      | EISDIR \<Rightarrow> IsADirectoryError (strerror e @ '': '' @ names)
      | EACCES \<Rightarrow> PermissionError (strerror e @ '': '' @ names)
      | EPERM \<Rightarrow> PermissionError (strerror e @ '': '' @ names))"

text \<open>The error of looking up a path that has no entry.\<close>

definition missing_errno :: "filesystem \<Rightarrow> path \<Rightarrow> errno" where
  "missing_errno fs p = (case walk_errno fs p of Some ENOTDIR \<Rightarrow> ENOTDIR | _ \<Rightarrow> ENOENT)"

text \<open>
  \<^verbatim>\<open>Path.iterdir()\<close>. The order in which the operating system lists a directory is not
  fixed by the disk's contents, so the listing (the names of the children of each
  directory, in the order they are returned) is a parameter.
\<close>

definition iterdir :: "(path \<Rightarrow> string list) \<Rightarrow> filesystem \<Rightarrow> path \<Rightarrow> exn + path list" where
  "iterdir listdir fs p =
     (case entries fs p of
        None \<Rightarrow> Inl (os_error (missing_errno fs p) (repr_path p))
      | Some (RegularFile c) \<Rightarrow> Inl (os_error ENOTDIR (repr_path p))
      | Some Directory \<Rightarrow> Inr (map (\<lambda>n. p @ [n]) (listdir p)))"

subsection \<open>Renaming\<close>

text \<open>
  \<^verbatim>\<open>Path.rename(target)\<close> on a POSIX system. The source must exist and the folder of the
  target must be reachable. A regular file replaces a regular file at the target
  silently and cannot replace a directory; a directory cannot replace a regular file;
  renaming a path to itself does nothing. What is left, moving a directory to a free
  path or onto a directory, moves every path below it: the plans of the renamer are
  made of the regular files that a scan has found, and this model of the disk does not
  cover that move; it refuses it with \<^verbatim>\<open>EPERM\<close>. The loops of the renamer take the rename of
  the operating system as a parameter, so that what is proved of them for every rename
  does not rest on this model.
\<close>

definition rename_names :: "path \<Rightarrow> path \<Rightarrow> string" where
  "rename_names old new = repr_path old @ '' -> '' @ repr_path new"

definition path_rename :: "filesystem \<Rightarrow> path \<Rightarrow> path \<Rightarrow> exn + filesystem" where
  "path_rename fs old new =
     (case entries fs old of
        None \<Rightarrow> Inl (os_error (missing_errno fs old) (rename_names old new))
      | Some source \<Rightarrow>
          (case walk_errno fs new of
             Some e \<Rightarrow> Inl (os_error e (rename_names old new))
           | None \<Rightarrow>
               if old \<in> locked fs \<or> new \<in> locked fs
               then Inl (os_error EACCES (rename_names old new))
               else if old = new then Inr fs
               else (case source of
                       RegularFile c \<Rightarrow>
                         if entries fs new = Some Directory
                         then Inl (os_error EISDIR (rename_names old new))
                         else Inr (fs\<lparr>entries :=
                                       (entries fs)(old := None, new := Some (RegularFile c))\<rparr>)
                     | Directory \<Rightarrow>
                         if is_file fs new
                         then Inl (os_error ENOTDIR (rename_names old new))
                         else Inl (os_error EPERM (rename_names old new)))))"

subsection \<open>The log file\<close>

text \<open>
  \<^verbatim>\<open>json.dump(data, f, indent=2, ensure_ascii=False)\<close> into a file opened with
  \<^verbatim>\<open>encoding='utf-8'\<close> writes every string of the log as it is, so it needs every one
  of them to be encodable.
\<close>

definition encodable_operation :: "operation \<Rightarrow> bool" where
  "encodable_operation r \<longleftrightarrow>
     utf8_valid (old_name r) \<and> utf8_valid (new_name r) \<and>
     utf8_valid (str_path (old_path r)) \<and> utf8_valid (str_path (new_path r)) \<and>
     utf8_valid (status r) \<and> (case error r of None \<Rightarrow> True | Some m \<Rightarrow> utf8_valid m)"

definition encodable :: "backup_data \<Rightarrow> bool" where
  "encodable d \<longleftrightarrow>
     utf8_valid (timestamp d) \<and> utf8_valid (str_path (raw_folder d)) \<and>
     utf8_valid (str_path (jpg_folder d)) \<and> list_all encodable_operation (operations d)"

text \<open>
  \<^verbatim>\<open>with open(path, 'w', encoding='utf-8') as f: json.dump(data, f, ...)\<close>. The result is
  the exception raised, if any, and the disk as the statement leaves it: opening the
  file creates or empties it, and when a string cannot be encoded the file keeps the
  text written before it. The message of the encoding error is its reason alone.
\<close>

definition write_json :: "filesystem \<Rightarrow> path \<Rightarrow> backup_data \<Rightarrow> exn option \<times> filesystem" where
  "write_json fs p d =
     (case walk_errno fs p of
        Some e \<Rightarrow> (Some (os_error e (repr_path p)), fs)
      | None \<Rightarrow>
          if entries fs p = Some Directory then (Some (os_error EISDIR (repr_path p)), fs)
          else if p \<in> locked fs then (Some (os_error EACCES (repr_path p)), fs)
          else if encodable d
          then (None, fs\<lparr>entries := (entries fs)(p := Some (RegularFile (Json d)))\<rparr>)
          else (Some (UnicodeEncodeError ''surrogates not allowed''),
                fs\<lparr>entries := (entries fs)(p := Some (RegularFile (TruncatedJson d)))\<rparr>))"

text \<open>
  \<^verbatim>\<open>with open(path, 'r', encoding='utf-8') as f: json.load(f)\<close>. The messages of the
  decoding errors are given without the position they report.
\<close>

definition read_json :: "filesystem \<Rightarrow> path \<Rightarrow> exn + backup_data" where
  "read_json fs p =
     (case entries fs p of
        None \<Rightarrow> Inl (os_error (missing_errno fs p) (repr_path p))
      | Some Directory \<Rightarrow> Inl (os_error EISDIR (repr_path p))
      | Some (RegularFile (Bytes b)) \<Rightarrow>
          if utf8_valid b then Inl (JSONDecodeError ''Expecting value'')
          else Inl (UnicodeDecodeError ''invalid start byte'')
      | Some (RegularFile (TruncatedJson d)) \<Rightarrow> Inl (JSONDecodeError ''Expecting value'')
      | Some (RegularFile (Json d)) \<Rightarrow> Inr d)"

section \<open>FileRenamerCore\<close>

text \<open>
  The third component of a pair is \<^verbatim>\<open>best_similarity\<close>, which starts as
  \<^verbatim>\<open>float('inf')\<close>: an extended natural number.
\<close>

record FileRenamerCore =
  raw_folder_path :: path
  jpg_folder_path :: path
  similarity_threshold :: int
  raw_files :: "path list"
  jpg_files :: "path list"
  pairs :: "(path \<times> path \<times> enat) list"
  log_file :: "path option"

definition init_core :: "path \<Rightarrow> path \<Rightarrow> int \<Rightarrow> FileRenamerCore" where
  "init_core raw_folder_path' jpg_folder_path' similarity_threshold' =
     \<lparr>raw_folder_path = raw_folder_path', jpg_folder_path = jpg_folder_path',
      similarity_threshold = similarity_threshold', raw_files = [], jpg_files = [],
      pairs = [], log_file = None\<rparr>"

subsection \<open>scan_files\<close>

text \<open>One scanning loop: the children that are regular files with an extension of the set.\<close>

fun scan_loop :: "filesystem \<Rightarrow> string set \<Rightarrow> path list \<Rightarrow> path list \<Rightarrow> path list" where
  "scan_loop fs exts [] files = files"
| "scan_loop fs exts (file_path # rest) files =
     (if is_file fs file_path
      then (let ext = str_lower (path_suffix file_path)
            in if ext \<in> exts then scan_loop fs exts rest (files @ [file_path])
               else scan_loop fs exts rest files)
      else scan_loop fs exts rest files)"

text \<open>
  The result is the returned pair of counts or the exception raised, together with the
  engine as the call leaves it (the two lists are emptied before the folders are checked).
  The messages of the two explicit exceptions are Czech: \<^verbatim>\<open>RAW slozka ... neexistuje.\<close>
  with a hacek on the z, written in UTF-8.
\<close>

definition slozka :: string where
  "slozka = ''slo'' @ [CHR 0xC5, CHR 0xBE] @ ''ka''"

definition scan_files ::
  "(path \<Rightarrow> string list) \<Rightarrow> filesystem \<Rightarrow> FileRenamerCore \<Rightarrow>
     (exn + nat \<times> nat) \<times> FileRenamerCore" where
  "scan_files listdir fs core =
     (let core1 = core\<lparr>raw_files := [], jpg_files := []\<rparr> in
      if \<not> path_exists fs (raw_folder_path core1)
      then (Inl (FileNotFoundError
                  (''RAW '' @ slozka @ '' '' @ str_path (raw_folder_path core1) @ '' neexistuje.'')),
            core1)
      else if \<not> path_exists fs (jpg_folder_path core1)
      then (Inl (FileNotFoundError
                  (''JPG '' @ slozka @ '' '' @ str_path (jpg_folder_path core1) @ '' neexistuje.'')),
            core1)
      else
        (case iterdir listdir fs (raw_folder_path core1) of
           Inl e \<Rightarrow> (Inl e, core1)
         | Inr raw_children \<Rightarrow>
             (let core2 = core1\<lparr>raw_files :=
                            scan_loop fs RAW_EXTENSIONS raw_children (raw_files core1)\<rparr>
              in case iterdir listdir fs (jpg_folder_path core2) of
                   Inl e \<Rightarrow> (Inl e, core2)
                 | Inr jpg_children \<Rightarrow>
                     (let core3 = core2\<lparr>jpg_files :=
                                    scan_loop fs JPG_EXTENSIONS jpg_children (jpg_files core2)\<rparr>
                      in (Inr (length (raw_files core3), length (jpg_files core3)), core3)))))"

subsection \<open>find_pairs\<close>

text \<open>
  \<^verbatim>\<open>calculate_image_hash\<close> opens and decodes the image and returns its hash, or
  \<^verbatim>\<open>None\<close> when anything fails; what it returns for each path is a parameter
  \<open>calc\<close>. \<^verbatim>\<open>jpg_hashes\<close> is a Python dict: it keeps its keys in the order of their first
  insertion, and storing under a key already present replaces the value in place, which
  is what \<open>AList.update\<close> does on an association list. \<^verbatim>\<open>progress_callback\<close> has its
  default value \<^verbatim>\<open>None\<close>.
\<close>

fun jpg_hashes_loop ::
  "(path \<Rightarrow> ImageHash option) \<Rightarrow> path list \<Rightarrow> (path \<times> ImageHash) list \<Rightarrow>
     (path \<times> ImageHash) list" where
  "jpg_hashes_loop calc [] jpg_hashes = jpg_hashes"
| "jpg_hashes_loop calc (jpg_file # rest) jpg_hashes =
     (case calc jpg_file of
        None \<Rightarrow> jpg_hashes_loop calc rest jpg_hashes
      | Some hash_value \<Rightarrow>
          jpg_hashes_loop calc rest (AList.update jpg_file hash_value jpg_hashes))"

fun best_loop ::
  "int \<Rightarrow> ImageHash \<Rightarrow> (path \<times> ImageHash) list \<Rightarrow> path option \<times> enat \<Rightarrow> path option \<times> enat" where
  "best_loop thr raw_hash [] best = best"
| "best_loop thr raw_hash ((jpg_file, jpg_hash) # rest) (best_match, best_similarity) =
     (let similarity = hash_sub raw_hash jpg_hash
      in if enat similarity < best_similarity \<and> int similarity \<le> thr
         then best_loop thr raw_hash rest (Some jpg_file, enat similarity)
         else best_loop thr raw_hash rest (best_match, best_similarity))"

fun raw_loop ::
  "(path \<Rightarrow> ImageHash option) \<Rightarrow> int \<Rightarrow> (path \<times> ImageHash) list \<Rightarrow> path list \<Rightarrow>
     (path \<times> path \<times> enat) list \<Rightarrow> (path \<times> path \<times> enat) list" where
  "raw_loop calc thr jpg_hashes [] prs = prs"
| "raw_loop calc thr jpg_hashes (raw_file # rest) prs =
     (case calc raw_file of
        None \<Rightarrow> raw_loop calc thr jpg_hashes rest prs
      | Some raw_hash \<Rightarrow>
          (case best_loop thr raw_hash jpg_hashes (None, \<infinity>) of
             (None, best_similarity) \<Rightarrow> raw_loop calc thr jpg_hashes rest prs
           | (Some best_match, best_similarity) \<Rightarrow>
               raw_loop calc thr jpg_hashes rest
                 (prs @ [(raw_file, best_match, best_similarity)])))"

definition find_pairs ::
  "(path \<Rightarrow> ImageHash option) \<Rightarrow> FileRenamerCore \<Rightarrow>
     (path \<times> path \<times> enat) list \<times> FileRenamerCore" where
  "find_pairs calc core =
     (let core1 = core\<lparr>pairs := []\<rparr>;
          jpg_hashes = jpg_hashes_loop calc (jpg_files core1) [];
          core2 = core1\<lparr>pairs := raw_loop calc (similarity_threshold core1) jpg_hashes
                                   (raw_files core1) (pairs core1)\<rparr>
      in (pairs core2, core2))"

subsection \<open>generate_rename_plan\<close>

fun plan_loop ::
  "filesystem \<Rightarrow> (path \<times> path \<times> enat) list \<Rightarrow> (path \<times> path) list \<Rightarrow> (path \<times> path) list" where
  "plan_loop fs [] rename_plan = rename_plan"
| "plan_loop fs ((raw_file, jpg_file, similarity) # rest) rename_plan =
     (let new_raw_name = stem jpg_file @ path_suffix raw_file;
          new_raw_path = joinpath (parent raw_file) new_raw_name
      in if path_exists fs new_raw_path \<and> new_raw_path \<noteq> raw_file
         then plan_loop fs rest rename_plan
         else if raw_file \<noteq> new_raw_path
         then plan_loop fs rest (rename_plan @ [(raw_file, new_raw_path)])
         else plan_loop fs rest rename_plan)"

definition generate_rename_plan :: "filesystem \<Rightarrow> FileRenamerCore \<Rightarrow> (path \<times> path) list" where
  "generate_rename_plan fs core = plan_loop fs (pairs core) []"

subsection \<open>execute_rename\<close>

text \<open>
  \<open>rename\<close> is what \<^verbatim>\<open>old_path.rename(new_path)\<close> does on the disk: the exception it
  raises or the disk it leaves.
  The two calls of \<^verbatim>\<open>datetime.now()\<close> are inputs: \<open>stamp\<close> is the time formatted by
  \<^verbatim>\<open>strftime("%Y%m%d_%H%M%S")\<close> and \<open>isotime\<close> the one formatted by \<^verbatim>\<open>isoformat()\<close>.
\<close>

fun rename_loop ::
  "(filesystem \<Rightarrow> path \<Rightarrow> path \<Rightarrow> exn + filesystem) \<Rightarrow> filesystem \<Rightarrow> (path \<times> path) list \<Rightarrow>
     operation list \<Rightarrow> nat \<Rightarrow> filesystem \<times> operation list \<times> nat" where
  "rename_loop rename fs [] ops successful_renames = (fs, ops, successful_renames)"
| "rename_loop rename fs ((old_path', new_path') # rest) ops successful_renames =
     (case rename fs old_path' new_path' of
        Inr fs' \<Rightarrow>
          rename_loop rename fs' rest
            (ops @ [\<lparr>old_name = name old_path', new_name = name new_path',
                     old_path = old_path', new_path = new_path',
                     status = ''success'', error = None\<rparr>])
            (successful_renames + 1)
      | Inl e \<Rightarrow>
          rename_loop rename fs rest
            (ops @ [\<lparr>old_name = name old_path', new_name = name new_path',
                     old_path = old_path', new_path = new_path',
                     status = ''error'', error = Some (str_exn e)\<rparr>])
            successful_renames)"

definition execute_rename ::
  "(filesystem \<Rightarrow> path \<Rightarrow> path \<Rightarrow> exn + filesystem) \<Rightarrow> string \<Rightarrow> string \<Rightarrow> filesystem \<Rightarrow>
     FileRenamerCore \<Rightarrow> (path \<times> path) list \<Rightarrow>
     (exn + nat \<times> path) \<times> FileRenamerCore \<times> filesystem" where
  "execute_rename rename stamp isotime fs core rename_plan =
     (let log_filename = ''rename_backup_'' @ stamp @ ''.json'';
          core1 = core\<lparr>log_file := Some (joinpath (raw_folder_path core) log_filename)\<rparr>;
          the_log_file = joinpath (raw_folder_path core) log_filename
      in case rename_loop rename fs rename_plan [] 0 of
           (fs1, ops, successful_renames) \<Rightarrow>
             (let backup = \<lparr>timestamp = isotime, raw_folder = raw_folder_path core1,
                            jpg_folder = jpg_folder_path core1, operations = ops\<rparr>
              in case write_json fs1 the_log_file backup of
                   (Some e, fs2) \<Rightarrow> (Inl e, core1, fs2)
                 | (None, fs2) \<Rightarrow> (Inr (successful_renames, the_log_file), core1, fs2)))"

subsection \<open>restore_backup\<close>

text \<open>
  The method of the window, without its dialogs: \<open>backup_file\<close> is the file the user
  chose. The result is the number of restored files and the list of error lines that the
  final message box reports, or the exception that the outer handler reports.
\<close>

fun restore_loop ::
  "(filesystem \<Rightarrow> path \<Rightarrow> path \<Rightarrow> exn + filesystem) \<Rightarrow> filesystem \<Rightarrow> operation list \<Rightarrow>
     nat \<Rightarrow> string list \<Rightarrow> filesystem \<times> nat \<times> string list" where
  "restore_loop rename fs [] restored errors = (fs, restored, errors)"
| "restore_loop rename fs (operation # rest) restored errors =
     (if status operation = ''success''
      then (let old_path' = old_path operation; new_path' = new_path operation
            in if path_exists fs new_path'
               then (case rename fs new_path' old_path' of
                       Inr fs' \<Rightarrow> restore_loop rename fs' rest (restored + 1) errors
                     | Inl e \<Rightarrow>
                         restore_loop rename fs rest restored
                           (errors @ [name new_path' @ '': '' @ str_exn e]))
               else restore_loop rename fs rest restored errors)
      else restore_loop rename fs rest restored errors)"

definition restore_backup ::
  "(filesystem \<Rightarrow> path \<Rightarrow> path \<Rightarrow> exn + filesystem) \<Rightarrow> filesystem \<Rightarrow> path \<Rightarrow>
     (exn + nat \<times> string list) \<times> filesystem" where
  "restore_backup rename fs backup_file =
     (case read_json fs backup_file of
        Inl e \<Rightarrow> (Inl e, fs)
      | Inr backup \<Rightarrow>
          (case restore_loop rename fs (operations backup) 0 [] of
             (fs', restored, errors) \<Rightarrow> (Inr (restored, errors), fs')))"

section \<open>Definitions used in the statements\<close>

subsection \<open>The planner\<close>

text \<open>
  The target of a pair, directory-of(raw) / (stem-of(jpg) + extension-of(raw)), and the
  pairs the planner keeps.
\<close>

definition target_path :: "path \<Rightarrow> path \<Rightarrow> path" where
  "target_path raw_file jpg_file = joinpath (parent raw_file) (stem jpg_file @ path_suffix raw_file)"

definition planned :: "filesystem \<Rightarrow> path \<times> path \<times> enat \<Rightarrow> bool" where
  "planned fs pr =
     (case pr of (raw_file, jpg_file, similarity) \<Rightarrow>
        \<not> path_exists fs (target_path raw_file jpg_file) \<and> raw_file \<noteq> target_path raw_file jpg_file)"

subsection \<open>The executor, one operation at a time\<close>

text \<open>
  For a given rename of the operating system: the disk after a plan has been attempted
  (an operation that raises leaves the disk as it is, and the next one is attempted),
  the record written for one operation on a given disk, and the records of a whole
  plan.
\<close>

fun fs_after ::
  "(filesystem \<Rightarrow> path \<Rightarrow> path \<Rightarrow> exn + filesystem) \<Rightarrow> filesystem \<Rightarrow> (path \<times> path) list \<Rightarrow>
     filesystem" where
  "fs_after rename fs [] = fs"
| "fs_after rename fs ((old, new) # rest) =
     (case rename fs old new of
        Inr fs' \<Rightarrow> fs_after rename fs' rest
      | Inl e \<Rightarrow> fs_after rename fs rest)"

definition record_of ::
  "(filesystem \<Rightarrow> path \<Rightarrow> path \<Rightarrow> exn + filesystem) \<Rightarrow> filesystem \<Rightarrow> path \<times> path \<Rightarrow> operation" where
  "record_of rename fs p =
     (case rename fs (fst p) (snd p) of
        Inr fs' \<Rightarrow> \<lparr>old_name = name (fst p), new_name = name (snd p), old_path = fst p,
                    new_path = snd p, status = ''success'', error = None\<rparr>
      | Inl e \<Rightarrow> \<lparr>old_name = name (fst p), new_name = name (snd p), old_path = fst p,
                   new_path = snd p, status = ''error'', error = Some (str_exn e)\<rparr>)"

fun records_of ::
  "(filesystem \<Rightarrow> path \<Rightarrow> path \<Rightarrow> exn + filesystem) \<Rightarrow> filesystem \<Rightarrow> (path \<times> path) list \<Rightarrow>
     operation list" where
  "records_of rename fs [] = []"
| "records_of rename fs (p # rest) =
     record_of rename fs p # records_of rename (fs_after rename fs [p]) rest"

subsection \<open>The classifier\<close>

text \<open>The children of a folder that a scan keeps for a set of extensions.\<close>

definition scanned :: "(path \<Rightarrow> string list) \<Rightarrow> filesystem \<Rightarrow> string set \<Rightarrow> path \<Rightarrow> path list" where
  "scanned listdir fs exts folder =
     filter (\<lambda>p. is_file fs p \<and> str_lower (path_suffix p) \<in> exts)
       (map (\<lambda>n. folder @ [n]) (listdir folder))"

subsection \<open>The restore engine, one record at a time\<close>

text \<open>
  What the restore loop does with one record: \<open>None\<close> when the record is skipped (its
  status is not success, or its target no longer exists), otherwise the outcome of the
  rename back. Then the disk, the counter and the error lines after a whole log.
  \<open>later T f g\<close> relates a disk \<open>f\<close> to a disk \<open>g\<close> that has the same locks and
  directories and where a path of \<open>T\<close> holds what it held in \<open>f\<close> or nothing.
\<close>

definition restore_step ::
  "(filesystem \<Rightarrow> path \<Rightarrow> path \<Rightarrow> exn + filesystem) \<Rightarrow> filesystem \<Rightarrow> operation \<Rightarrow>
     (exn + filesystem) option" where
  "restore_step rename fs operation =
     (if status operation = ''success'' \<and> path_exists fs (new_path operation)
      then Some (rename fs (new_path operation) (old_path operation))
      else None)"

fun restored_fs ::
  "(filesystem \<Rightarrow> path \<Rightarrow> path \<Rightarrow> exn + filesystem) \<Rightarrow> filesystem \<Rightarrow> operation list \<Rightarrow>
     filesystem" where
  "restored_fs rename fs [] = fs"
| "restored_fs rename fs (operation # rest) =
     (case restore_step rename fs operation of
        Some (Inr fs') \<Rightarrow> restored_fs rename fs' rest
      | _ \<Rightarrow> restored_fs rename fs rest)"

fun restored_count ::
  "(filesystem \<Rightarrow> path \<Rightarrow> path \<Rightarrow> exn + filesystem) \<Rightarrow> filesystem \<Rightarrow> operation list \<Rightarrow> nat" where
  "restored_count rename fs [] = 0"
| "restored_count rename fs (operation # rest) =
     (case restore_step rename fs operation of
        Some (Inr fs') \<Rightarrow> Suc (restored_count rename fs' rest)
      | _ \<Rightarrow> restored_count rename fs rest)"

fun restore_errors ::
  "(filesystem \<Rightarrow> path \<Rightarrow> path \<Rightarrow> exn + filesystem) \<Rightarrow> filesystem \<Rightarrow> operation list \<Rightarrow>
     string list" where
  "restore_errors rename fs [] = []"
| "restore_errors rename fs (operation # rest) =
     (case restore_step rename fs operation of
        Some (Inr fs') \<Rightarrow> restore_errors rename fs' rest
      | Some (Inl e) \<Rightarrow>
          (name (new_path operation) @ '': '' @ str_exn e) # restore_errors rename fs rest
      | None \<Rightarrow> restore_errors rename fs rest)"

definition later :: "path set \<Rightarrow> filesystem \<Rightarrow> filesystem \<Rightarrow> bool" where
  "later T f g \<longleftrightarrow>
     locked g = locked f \<and> (\<forall>p. is_dir g p = is_dir f p) \<and>
     (\<forall>t \<in> T. entries g t = entries f t \<or> entries g t = None)"

subsection \<open>The pairing engine as the specification words it\<close>

text \<open>
  The JPG files with a computed fingerprint, in iteration order; among them the one with
  the least distance to the RAW fingerprint, the first such in that order; the
  candidate accepted only when its distance is at most the threshold; one pair at most
  for each RAW file, none when its own fingerprint failed.
\<close>

fun fingerprinted :: "(path \<Rightarrow> ImageHash option) \<Rightarrow> path list \<Rightarrow> (path \<times> ImageHash) list" where
  "fingerprinted calc [] = []"
| "fingerprinted calc (f # rest) =
     (case calc f of None \<Rightarrow> fingerprinted calc rest | Some h \<Rightarrow> (f, h) # fingerprinted calc rest)"

definition closest_jpg :: "ImageHash \<Rightarrow> (path \<times> ImageHash) list \<Rightarrow> (path \<times> nat) option" where
  "closest_jpg raw_hash candidates =
     (if candidates = [] then None
      else let least = Min (set (map (\<lambda>c. hash_sub raw_hash (snd c)) candidates))
           in map_option (\<lambda>c. (fst c, least))
                (find (\<lambda>c. hash_sub raw_hash (snd c) = least) candidates))"

definition accepted_jpg :: "int \<Rightarrow> ImageHash \<Rightarrow> (path \<times> ImageHash) list \<Rightarrow> (path \<times> nat) option" where
  "accepted_jpg thr raw_hash candidates =
     (case closest_jpg raw_hash candidates of
        None \<Rightarrow> None
      | Some (jpg_file, least) \<Rightarrow> if int least \<le> thr then Some (jpg_file, least) else None)"

definition match_of ::
  "(path \<Rightarrow> ImageHash option) \<Rightarrow> int \<Rightarrow> path list \<Rightarrow> path \<Rightarrow> (path \<times> path \<times> enat) list" where
  "match_of calc thr jpgs raw_file =
     (case calc raw_file of
        None \<Rightarrow> []
      | Some raw_hash \<Rightarrow>
          (case accepted_jpg thr raw_hash (fingerprinted calc jpgs) of
             None \<Rightarrow> []
           | Some (jpg_file, least) \<Rightarrow> [(raw_file, jpg_file, enat least)]))"

definition spec_find_pairs ::
  "(path \<Rightarrow> ImageHash option) \<Rightarrow> int \<Rightarrow> path list \<Rightarrow> path list \<Rightarrow> (path \<times> path \<times> enat) list" where
  "spec_find_pairs calc thr raws jpgs = concat (map (match_of calc thr jpgs) raws)"

subsection \<open>Example inputs\<close>

text \<open>
  A disk with one RAW and one JPG file, the listing of its folders, and an engine after
  pairing them.
\<close>

definition disk_A :: filesystem where
  "disk_A =
     \<lparr>entries = [ [''photos''] \<mapsto> Directory,
                 [''photos'', ''raw''] \<mapsto> Directory,
                 [''photos'', ''jpg''] \<mapsto> Directory,
                 [''photos'', ''raw'', ''IMG_0001.CR2''] \<mapsto> RegularFile (Bytes ''raw one''),
                 [''photos'', ''jpg'', ''Wedding_042.jpg''] \<mapsto> RegularFile (Bytes ''jpg one'')],
      locked = {}\<rparr>"

definition listdir_A :: "path \<Rightarrow> string list" where
  "listdir_A p =
     (if p = [''photos'', ''raw''] then [''IMG_0001.CR2'']
      else if p = [''photos'', ''jpg''] then [''Wedding_042.jpg'']
      else if p = [''photos''] then [''raw'', ''jpg'']
      else [])"

definition core_A :: FileRenamerCore where
  "core_A = (init_core [''photos'', ''raw''] [''photos'', ''jpg''] 5)
     \<lparr>raw_files := [ [''photos'', ''raw'', ''IMG_0001.CR2'']],
      jpg_files := [ [''photos'', ''jpg'', ''Wedding_042.jpg'']],
      pairs := [([''photos'', ''raw'', ''IMG_0001.CR2''], [''photos'', ''jpg'', ''Wedding_042.jpg''], 0)]\<rparr>"

text \<open>
  A shoot where two RAW files are closest to the same JPG file (distances 2 and 3), a
  third one is 8 away from it, a fourth one does not decode, one JPG file is an exact
  copy of another and one JPG file does not decode.
\<close>

definition calc_B :: "path \<Rightarrow> ImageHash option" where
  "calc_B p =
     (if p = [''photos'', ''jpg'', ''Wedding_041.jpg''] then Some 0xFF00
      else if p = [''photos'', ''jpg'', ''Wedding_042.jpg''] then Some 0
      else if p = [''photos'', ''jpg'', ''Wedding_042_copy.jpg''] then Some 0
      else if p = [''photos'', ''raw'', ''IMG_0001.CR2''] then Some 3
      else if p = [''photos'', ''raw'', ''IMG_0002.NEF''] then Some 7
      else if p = [''photos'', ''raw'', ''IMG_0003.CR2''] then Some 0xFF
      else None)"

definition core_B :: FileRenamerCore where
  "core_B = (init_core [''photos'', ''raw''] [''photos'', ''jpg''] 5)
     \<lparr>raw_files := [ [''photos'', ''raw'', ''IMG_0001.CR2''],
                    [''photos'', ''raw'', ''IMG_0002.NEF''],
                    [''photos'', ''raw'', ''IMG_0003.CR2''],
                    [''photos'', ''raw'', ''IMG_0004.CR2'']],
      jpg_files := [ [''photos'', ''jpg'', ''Wedding_041.jpg''],
                    [''photos'', ''jpg'', ''Wedding_042.jpg''],
                    [''photos'', ''jpg'', ''Wedding_042_copy.jpg''],
                    [''photos'', ''jpg'', ''broken.jpg'']]\<rparr>"



definition backup_log :: path where
  "backup_log = [''photos'', ''raw'', ''rename_backup_20240101_120000.json'']"






text \<open>
  A burst: two RAW files with the same extension that are both closest to the one JPG
  file; the disk after the plan made for them has been executed, and after the log of
  that run has been restored.
\<close>

definition disk_D :: filesystem where
  "disk_D =
     \<lparr>entries = [ [''photos''] \<mapsto> Directory,
                 [''photos'', ''raw''] \<mapsto> Directory,
                 [''photos'', ''jpg''] \<mapsto> Directory,
                 [''photos'', ''raw'', ''IMG_0001.CR2''] \<mapsto> RegularFile (Bytes ''burst one''),
                 [''photos'', ''raw'', ''IMG_0002.CR2''] \<mapsto> RegularFile (Bytes ''burst two''),
                 [''photos'', ''jpg'', ''Wedding_042.jpg''] \<mapsto> RegularFile (Bytes ''jpg one'')],
      locked = {}\<rparr>"

definition listdir_D :: "path \<Rightarrow> string list" where
  "listdir_D p =
     (if p = [''photos'', ''raw''] then [''IMG_0001.CR2'', ''IMG_0002.CR2'']
      else if p = [''photos'', ''jpg''] then [''Wedding_042.jpg'']
      else if p = [''photos''] then [''raw'', ''jpg'']
      else [])"

definition calc_D :: "path \<Rightarrow> ImageHash option" where
  "calc_D p =
     (if p = [''photos'', ''jpg'', ''Wedding_042.jpg''] then Some 0
      else if p = [''photos'', ''raw'', ''IMG_0001.CR2''] then Some 3
      else if p = [''photos'', ''raw'', ''IMG_0002.CR2''] then Some 7
      else None)"

definition core_D :: FileRenamerCore where
  "core_D = (init_core [''photos'', ''raw''] [''photos'', ''jpg''] 5)
     \<lparr>raw_files := [ [''photos'', ''raw'', ''IMG_0001.CR2''], [''photos'', ''raw'', ''IMG_0002.CR2'']],
      jpg_files := [ [''photos'', ''jpg'', ''Wedding_042.jpg'']]\<rparr>"

definition plan_D :: "(path \<times> path) list" where
  "plan_D =
     [([''photos'', ''raw'', ''IMG_0001.CR2''], [''photos'', ''raw'', ''Wedding_042.CR2'']),
      ([''photos'', ''raw'', ''IMG_0002.CR2''], [''photos'', ''raw'', ''Wedding_042.CR2''])]"

definition disk_D_renamed :: filesystem where
  "disk_D_renamed =
     snd (snd (execute_rename path_rename ''20240101_120000'' ''2024-01-01T12:00:00'' disk_D
                (snd (find_pairs calc_D core_D)) plan_D))"

definition disk_D_restored :: filesystem where
  "disk_D_restored = snd (restore_backup path_rename disk_D_renamed backup_log)"

text \<open>The first example disk after its plan has been executed.\<close>

definition disk_A_renamed :: filesystem where
  "disk_A_renamed =
     snd (snd (execute_rename path_rename ''20240101_120000'' ''2024-01-01T12:00:00'' disk_A core_A
                (generate_rename_plan disk_A core_A)))"

section \<open>The planner\<close>

lemma plan_loop_eq:
  "plan_loop fs prs acc =
     acc @ map (\<lambda>(raw_file, jpg_file, similarity). (raw_file, target_path raw_file jpg_file))
             (filter (planned fs) prs)"
proof (induction fs prs acc rule: plan_loop.induct)
  case (1 fs rename_plan)
  show ?case by simp
next
  case (2 fs raw_file jpg_file similarity rest rename_plan)
  then show ?case
    by (cases "path_exists fs (target_path raw_file jpg_file)";
        cases "raw_file = target_path raw_file jpg_file")
       (simp_all add: planned_def target_path_def)
qed

lemma generate_rename_plan_eq:
  "generate_rename_plan fs core =
     map (\<lambda>(raw_file, jpg_file, similarity). (raw_file, target_path raw_file jpg_file))
       (filter (planned fs) (pairs core))"
  by (simp add: generate_rename_plan_def plan_loop_eq)

text \<open>
  Claim C4. Every operation of the plan comes from a pair and has the target
  directory-of(raw) / (stem-of(jpg) + extension-of(raw)); its target does not exist on
  the disk unless it is the source itself, and its source differs from its target.
\<close>

theorem C4_plan_targets:
  "\<forall>(source, target) \<in> set (generate_rename_plan fs core).
     (\<exists>jpg_file similarity.
        (source, jpg_file, similarity) \<in> set (pairs core) \<and>
        target = joinpath (parent source) (stem jpg_file @ path_suffix source)) \<and>
     \<not> (path_exists fs target \<and> target \<noteq> source) \<and>
     source \<noteq> target"
  unfolding generate_rename_plan_eq
  by (auto simp: planned_def target_path_def)

text \<open>The plan of the example, and claim C4 on it.\<close>

lemma plan_A:
  "generate_rename_plan disk_A core_A =
     [([''photos'', ''raw'', ''IMG_0001.CR2''], [''photos'', ''raw'', ''Wedding_042.CR2''])]"
  by (simp add: generate_rename_plan_def core_A_def init_core_def disk_A_def path_exists_def
      stem_def path_suffix_def name_def rfind_dot_def parent_def joinpath_def)

theorem C4_plan_targets_witness:
  "([''photos'', ''raw'', ''IMG_0001.CR2''], [''photos'', ''raw'', ''Wedding_042.CR2''])
     \<in> set (generate_rename_plan disk_A core_A) \<and>
   (\<exists>jpg_file similarity.
      ([''photos'', ''raw'', ''IMG_0001.CR2''], jpg_file, similarity) \<in> set (pairs core_A) \<and>
      [''photos'', ''raw'', ''Wedding_042.CR2''] =
        joinpath (parent [''photos'', ''raw'', ''IMG_0001.CR2''])
          (stem jpg_file @ path_suffix [''photos'', ''raw'', ''IMG_0001.CR2''])) \<and>
   \<not> path_exists disk_A [''photos'', ''raw'', ''Wedding_042.CR2'']"
  using C4_plan_targets [of disk_A core_A] by (simp add: plan_A)

section \<open>The executor\<close>

lemma rename_loop_eq:
  "rename_loop rename fs plan ops n =
     (fs_after rename fs plan, ops @ records_of rename fs plan,
      n + length (filter (\<lambda>r. status r = ''success'') (records_of rename fs plan)))"
proof (induction rename fs plan ops n rule: rename_loop.induct)
  case (1 rename fs ops n)
  show ?case by simp
next
  case (2 rename fs old new rest ops n)
  show ?case
  proof (cases "rename fs old new")
    case (Inl e)
    with 2 show ?thesis by (simp add: record_of_def)
  next
    case (Inr fs')
    with 2 show ?thesis by (simp add: record_of_def)
  qed
qed



lemma length_records_of [simp]: "length (records_of rename fs plan) = length plan"
  by (induction plan arbitrary: fs) auto

lemma record_of_paths [simp]:
  "old_path (record_of rename fs p) = fst p" "new_path (record_of rename fs p) = snd p"
  "old_name (record_of rename fs p) = name (fst p)"
  "new_name (record_of rename fs p) = name (snd p)"
  by (auto simp: record_of_def split: sum.splits)

lemma records_of_paths:
  "map (\<lambda>r. (old_path r, new_path r)) (records_of rename fs plan) = plan"
  by (induction plan arbitrary: fs) auto



lemma execute_rename_eq:
  "execute_rename rename stamp isotime fs core plan =
     (case write_json (fs_after rename fs plan)
             (joinpath (raw_folder_path core) (''rename_backup_'' @ stamp @ ''.json''))
             \<lparr>timestamp = isotime, raw_folder = raw_folder_path core,
              jpg_folder = jpg_folder_path core, operations = records_of rename fs plan\<rparr> of
        (Some e, fs2) \<Rightarrow>
          (Inl e,
           core\<lparr>log_file :=
                  Some (joinpath (raw_folder_path core) (''rename_backup_'' @ stamp @ ''.json''))\<rparr>,
           fs2)
      | (None, fs2) \<Rightarrow>
          (Inr (length (filter (\<lambda>r. status r = ''success'') (records_of rename fs plan)),
                joinpath (raw_folder_path core) (''rename_backup_'' @ stamp @ ''.json'')),
           core\<lparr>log_file :=
                  Some (joinpath (raw_folder_path core) (''rename_backup_'' @ stamp @ ''.json''))\<rparr>,
           fs2))"
  by (simp add: execute_rename_def rename_loop_eq Let_def split: prod.splits option.splits)

subsection \<open>The rename of the model and the log file\<close>

lemma walk_from_cong:
  "\<forall>q. is_dir g q = is_dir f q \<Longrightarrow> (walk_from g reached p = None) = (walk_from f reached p = None)"
proof (induction f reached p rule: walk_from.induct)
  case (1 fs reached)
  show ?case by simp
next
  case (2 fs reached last_name)
  show ?case by simp
next
  case (3 fs reached n m rest)
  from 3(2) have "(entries g (reached @ [n]) = Some Directory)
      = (entries fs (reached @ [n]) = Some Directory)"
    by (simp add: is_dir_def)
  with 3 show ?case
    by (auto split: option.splits node.splits)
qed

lemma walk_errno_cong:
  "\<forall>q. is_dir g q = is_dir f q \<Longrightarrow> (walk_errno g p = None) = (walk_errno f p = None)"
  unfolding walk_errno_def by (rule walk_from_cong)

lemma path_rename_locked: "path_rename fs old new = Inr fs' \<Longrightarrow> locked fs' = locked fs"
  by (auto simp: path_rename_def split: option.splits node.splits if_splits)

lemma path_rename_is_dir: "path_rename fs old new = Inr fs' \<Longrightarrow> is_dir fs' p = is_dir fs p"
  by (auto simp: path_rename_def is_dir_def split: option.splits node.splits if_splits)

lemma fs_after_locked [simp]: "locked (fs_after path_rename fs plan) = locked fs"
proof (induction plan arbitrary: fs)
  case Nil
  show ?case by simp
next
  case (Cons a plan)
  obtain old new where a: "a = (old, new)" by (cases a)
  show ?case using Cons by (auto simp: a split: sum.splits dest: path_rename_locked)
qed

lemma fs_after_is_dir [simp]: "is_dir (fs_after path_rename fs plan) p = is_dir fs p"
proof (induction plan arbitrary: fs)
  case Nil
  show ?case by simp
next
  case (Cons a plan)
  obtain old new where a: "a = (old, new)" by (cases a)
  show ?case using Cons by (auto simp: a split: sum.splits dest: path_rename_is_dir)
qed

lemma fs_after_walk [simp]:
  "(walk_errno (fs_after path_rename fs plan) p = None) = (walk_errno fs p = None)"
  by (rule walk_errno_cong) simp

lemma write_json_None:
  "write_json fs p d = (None, fs') \<Longrightarrow>
   fs' = fs\<lparr>entries := (entries fs)(p := Some (RegularFile (Json d)))\<rparr> \<and> read_json fs' p = Inr d"
  by (auto simp: write_json_def read_json_def split: option.splits if_splits)

lemma write_json_ok:
  "walk_errno fs p = None \<Longrightarrow> \<not> is_dir fs p \<Longrightarrow> p \<notin> locked fs \<Longrightarrow> encodable d \<Longrightarrow>
   write_json fs p d = (None, fs\<lparr>entries := (entries fs)(p := Some (RegularFile (Json d)))\<rparr>)"
  by (simp add: write_json_def is_dir_def)




subsection \<open>Claim C3\<close>








section \<open>The classifier\<close>

lemma scan_loop_eq:
  "scan_loop fs exts children files =
     files @ filter (\<lambda>p. is_file fs p \<and> str_lower (path_suffix p) \<in> exts) children"
  by (induction fs exts children files rule: scan_loop.induct) (simp_all add: Let_def)

lemma exists_cases:
  "path_exists fs p \<Longrightarrow> is_dir fs p \<or> (\<exists>c. entries fs p = Some (RegularFile c))"
  by (cases "entries fs p") (auto simp: path_exists_def is_dir_def, metis node.exhaust)

lemma is_dir_exists: "is_dir fs p \<Longrightarrow> path_exists fs p"
  by (simp add: is_dir_def path_exists_def)

lemma iterdir_dir: "is_dir fs p \<Longrightarrow> iterdir listdir fs p = Inr (map (\<lambda>n. p @ [n]) (listdir p))"
  by (simp add: iterdir_def is_dir_def)

lemma iterdir_file:
  "path_exists fs p \<Longrightarrow> \<not> is_dir fs p \<Longrightarrow>
   iterdir listdir fs p = Inl (NotADirectoryError (''[Errno 20] Not a directory: '' @ repr_path p))"
  by (auto simp: iterdir_def os_error_def strerror_def dest!: exists_cases)

lemma scan_files_missing:
  "\<not> path_exists fs (raw_folder_path core) \<or> \<not> path_exists fs (jpg_folder_path core) \<Longrightarrow>
   \<exists>m. scan_files listdir fs core = (Inl (FileNotFoundError m), core\<lparr>raw_files := [], jpg_files := []\<rparr>)"
  by (auto simp: scan_files_def Let_def)

lemma scan_files_not_dir:
  "path_exists fs (raw_folder_path core) \<Longrightarrow> path_exists fs (jpg_folder_path core) \<Longrightarrow>
   \<not> is_dir fs (raw_folder_path core) \<or> \<not> is_dir fs (jpg_folder_path core) \<Longrightarrow>
   \<exists>m. fst (scan_files listdir fs core) = Inl (NotADirectoryError m)"
  by (cases "is_dir fs (raw_folder_path core)")
     (auto simp: scan_files_def Let_def iterdir_file iterdir_dir)

lemma scan_files_dirs:
  "is_dir fs (raw_folder_path core) \<Longrightarrow> is_dir fs (jpg_folder_path core) \<Longrightarrow>
   scan_files listdir fs core =
     (Inr (length (scanned listdir fs RAW_EXTENSIONS (raw_folder_path core)),
           length (scanned listdir fs JPG_EXTENSIONS (jpg_folder_path core))),
      core\<lparr>raw_files := scanned listdir fs RAW_EXTENSIONS (raw_folder_path core),
           jpg_files := scanned listdir fs JPG_EXTENSIONS (jpg_folder_path core)\<rparr>)"
  by (simp add: scan_files_def Let_def iterdir_dir is_dir_exists scan_loop_eq scanned_def)

text \<open>
  Claim C7, as the code has it. The scan fails with \<open>FileNotFoundError\<close> exactly when one
  of the two folders does not exist; it fails with \<open>NotADirectoryError\<close>, raised by the
  listing, exactly when both exist and one of them is not a directory; and it returns
  exactly when both are directories, with the numbers of their children that are regular
  files with a RAW and with a JPG extension.
\<close>

theorem C7_scan_files_outcome:
  "((\<exists>m. fst (scan_files listdir fs core) = Inl (FileNotFoundError m)) \<longleftrightarrow>
      \<not> path_exists fs (raw_folder_path core) \<or> \<not> path_exists fs (jpg_folder_path core)) \<and>
   ((\<exists>m. fst (scan_files listdir fs core) = Inl (NotADirectoryError m)) \<longleftrightarrow>
      path_exists fs (raw_folder_path core) \<and> path_exists fs (jpg_folder_path core) \<and>
      (\<not> is_dir fs (raw_folder_path core) \<or> \<not> is_dir fs (jpg_folder_path core))) \<and>
   ((\<exists>counts. fst (scan_files listdir fs core) = Inr counts) \<longleftrightarrow>
      is_dir fs (raw_folder_path core) \<and> is_dir fs (jpg_folder_path core)) \<and>
   ((\<exists>counts. fst (scan_files listdir fs core) = Inr counts) \<longleftrightarrow>
      scan_files listdir fs core =
        (Inr (length (scanned listdir fs RAW_EXTENSIONS (raw_folder_path core)),
              length (scanned listdir fs JPG_EXTENSIONS (jpg_folder_path core))),
         core\<lparr>raw_files := scanned listdir fs RAW_EXTENSIONS (raw_folder_path core),
              jpg_files := scanned listdir fs JPG_EXTENSIONS (jpg_folder_path core)\<rparr>))"
proof -
  consider
      (missing) "\<not> path_exists fs (raw_folder_path core) \<or> \<not> path_exists fs (jpg_folder_path core)"
    | (notdir) "path_exists fs (raw_folder_path core)" "path_exists fs (jpg_folder_path core)"
        "\<not> is_dir fs (raw_folder_path core) \<or> \<not> is_dir fs (jpg_folder_path core)"
    | (dirs) "is_dir fs (raw_folder_path core)" "is_dir fs (jpg_folder_path core)"
    by blast
  then show ?thesis
  proof cases
    case missing
    from scan_files_missing [OF this, of listdir]
    obtain m where "fst (scan_files listdir fs core) = Inl (FileNotFoundError m)" by auto
    with missing show ?thesis by (auto dest: is_dir_exists)
  next
    case notdir
    from scan_files_not_dir [OF this, of listdir]
    obtain m where "fst (scan_files listdir fs core) = Inl (NotADirectoryError m)" by auto
    with notdir show ?thesis by auto
  next
    case dirs
    from scan_files_dirs [OF this, of listdir] dirs
    show ?thesis by (auto dest: is_dir_exists)
  qed
qed

text \<open>Claim C7 at a missing RAW folder.\<close>

theorem C7_scan_files_outcome_witness:
  "\<not> path_exists disk_A [''photos'', ''gone''] \<and>
   (\<exists>m. fst (scan_files listdir_A disk_A (init_core [''photos'', ''gone''] [''photos'', ''jpg''] 5))
          = Inl (FileNotFoundError m)) \<and>
   is_dir disk_A [''photos'', ''raw''] \<and> is_dir disk_A [''photos'', ''jpg''] \<and>
   (\<exists>counts. fst (scan_files listdir_A disk_A (init_core [''photos'', ''raw''] [''photos'', ''jpg''] 5))
          = Inr counts)"
proof -
  have h: "\<not> path_exists disk_A [''photos'', ''gone'']"
    by (simp add: path_exists_def disk_A_def)
  have d: "is_dir disk_A [''photos'', ''raw'']" "is_dir disk_A [''photos'', ''jpg'']"
    by (simp_all add: is_dir_def disk_A_def)
  show ?thesis
    using h d C7_scan_files_outcome
      [of listdir_A disk_A "init_core [''photos'', ''gone''] [''photos'', ''jpg''] 5"]
      C7_scan_files_outcome
      [of listdir_A disk_A "init_core [''photos'', ''raw''] [''photos'', ''jpg''] 5"]
    by (simp add: init_core_def)
qed

text \<open>
  Claim C7 as stated fails: a RAW folder path that is a regular file exists and is not
  a directory, and the scan does not fail with \<open>FileNotFoundError\<close>.
\<close>

theorem C7_not_a_directory_counterexample:
  "path_exists disk_A [''photos'', ''raw'', ''IMG_0001.CR2''] \<and>
   \<not> is_dir disk_A [''photos'', ''raw'', ''IMG_0001.CR2''] \<and>
   fst (scan_files listdir_A disk_A
          (init_core [''photos'', ''raw'', ''IMG_0001.CR2''] [''photos'', ''jpg''] 5))
     = Inl (NotADirectoryError
             (''[Errno 20] Not a directory: '' @ repr_path [''photos'', ''raw'', ''IMG_0001.CR2'']))"
  by (simp add: scan_files_def init_core_def disk_A_def path_exists_def is_dir_def iterdir_def
      os_error_def strerror_def)

text \<open>
  Claim C8, as the code has it. When a folder is missing the scan fails with
  \<open>FileNotFoundError\<close> without consulting any directory listing, and it leaves the
  engine as it was except that the two file lists are emptied.
\<close>

theorem C8_missing_directory_resets_lists:
  assumes "\<not> path_exists fs (raw_folder_path core) \<or> \<not> path_exists fs (jpg_folder_path core)"
  shows "(\<exists>m. scan_files listdir fs core =
            (Inl (FileNotFoundError m), core\<lparr>raw_files := [], jpg_files := []\<rparr>)) \<and>
         scan_files listdir' fs core = scan_files listdir fs core"
  using assms by (auto simp: scan_files_def Let_def)

text \<open>Claim C8 at a missing RAW folder.\<close>

theorem C8_missing_directory_resets_lists_witness:
  "\<not> path_exists disk_A [''photos'', ''gone''] \<and>
   (\<exists>m. scan_files listdir_A disk_A (core_A\<lparr>raw_folder_path := [''photos'', ''gone'']\<rparr>) =
      (Inl (FileNotFoundError m),
       core_A\<lparr>raw_folder_path := [''photos'', ''gone''], raw_files := [], jpg_files := []\<rparr>))"
proof -
  have h: "\<not> path_exists disk_A (raw_folder_path (core_A\<lparr>raw_folder_path := [''photos'', ''gone'']\<rparr>))"
    by (simp add: path_exists_def disk_A_def)
  show ?thesis
    using h C8_missing_directory_resets_lists [of disk_A "core_A\<lparr>raw_folder_path := [''photos'', ''gone'']\<rparr>" listdir_A listdir_A]
    by simp
qed

text \<open>
  Claim C8 as stated fails: an engine with a scanned RAW file has lost it after a scan
  that failed on a missing folder.
\<close>

theorem C8_state_unchanged_counterexample:
  "\<not> path_exists disk_A [''photos'', ''gone''] \<and>
   raw_files (core_A\<lparr>raw_folder_path := [''photos'', ''gone'']\<rparr>) = [ [''photos'', ''raw'', ''IMG_0001.CR2'']] \<and>
   raw_files (snd (scan_files listdir_A disk_A (core_A\<lparr>raw_folder_path := [''photos'', ''gone'']\<rparr>))) = [] \<and>
   snd (scan_files listdir_A disk_A (core_A\<lparr>raw_folder_path := [''photos'', ''gone'']\<rparr>))
     \<noteq> core_A\<lparr>raw_folder_path := [''photos'', ''gone'']\<rparr>"
  by (simp add: scan_files_def core_A_def init_core_def disk_A_def path_exists_def)

text \<open>A scan of the example disk.\<close>

lemma scan_A:
  "scan_files listdir_A disk_A (init_core [''photos'', ''raw''] [''photos'', ''jpg''] 5) =
     (Inr (1, 1), (init_core [''photos'', ''raw''] [''photos'', ''jpg''] 5)
        \<lparr>raw_files := [ [''photos'', ''raw'', ''IMG_0001.CR2'']],
      jpg_files := [ [''photos'', ''jpg'', ''Wedding_042.jpg'']]\<rparr>)"
  by code_simp

section \<open>The pairing engine\<close>

subsection \<open>The selection loop\<close>

lemma find_split:
  "\<forall>e \<in> set pre. \<not> P e \<Longrightarrow> P x \<Longrightarrow> find P (pre @ x # post) = Some x"
  by (induction pre) auto

lemma find_append_cases:
  "find P (xs @ ys) = (case find P xs of None \<Rightarrow> find P ys | Some x \<Rightarrow> Some x)"
  by (induction xs) auto

lemma find_repeated:
  "e \<in> set xs \<Longrightarrow> find P (xs @ e # ys) = find P (xs @ ys)"
proof (cases "find P xs")
  case None
  assume "e \<in> set xs"
  with None have "\<not> P e" by (auto simp: find_None_iff)
  with None show ?thesis by (simp add: find_append_cases)
next
  case (Some x)
  then show ?thesis by (simp add: find_append_cases)
qed

lemma best_loop_cases:
  "(best_loop thr rh al (bm, bs) = (bm, bs) \<and>
      (\<forall>e \<in> set al. \<not> (enat (hash_sub rh (snd e)) < bs \<and> int (hash_sub rh (snd e)) \<le> thr)))
   \<or> (\<exists>pre j h post. al = pre @ (j, h) # post \<and>
         best_loop thr rh al (bm, bs) = (Some j, enat (hash_sub rh h)) \<and>
         enat (hash_sub rh h) < bs \<and> int (hash_sub rh h) \<le> thr \<and>
         (\<forall>e \<in> set pre. hash_sub rh h < hash_sub rh (snd e)) \<and>
         (\<forall>e \<in> set post. hash_sub rh h \<le> hash_sub rh (snd e)))"
proof (induction al arbitrary: bm bs)
  case Nil
  show ?case by simp
next
  case (Cons a rest)
  obtain j0 h0 where a: "a = (j0, h0)" by (cases a)
  let ?d0 = "hash_sub rh h0"
  show ?case
  proof (cases "enat ?d0 < bs \<and> int ?d0 \<le> thr")
    case True
    then have step: "best_loop thr rh (a # rest) (bm, bs) = best_loop thr rh rest (Some j0, enat ?d0)"
      by (simp add: a)
    from Cons.IH [of "Some j0" "enat ?d0"] show ?thesis
    proof (elim disjE conjE exE)
      assume same: "best_loop thr rh rest (Some j0, enat ?d0) = (Some j0, enat ?d0)"
        and none: "\<forall>e \<in> set rest. \<not> (enat (hash_sub rh (snd e)) < enat ?d0 \<and> int (hash_sub rh (snd e)) \<le> thr)"
      have "\<forall>e \<in> set rest. ?d0 \<le> hash_sub rh (snd e)"
        using none True by fastforce
      then have "a # rest = [] @ (j0, h0) # rest \<and>
         best_loop thr rh (a # rest) (bm, bs) = (Some j0, enat ?d0) \<and>
         enat ?d0 < bs \<and> int ?d0 \<le> thr \<and>
         (\<forall>e \<in> set []. ?d0 < hash_sub rh (snd e)) \<and>
         (\<forall>e \<in> set rest. ?d0 \<le> hash_sub rh (snd e))"
        using True step same a by simp
      then show ?thesis by blast
    next
      fix pre j h post
      assume r: "rest = pre @ (j, h) # post"
        and b: "best_loop thr rh rest (Some j0, enat ?d0) = (Some j, enat (hash_sub rh h))"
        and lt: "enat (hash_sub rh h) < enat ?d0" and le: "int (hash_sub rh h) \<le> thr"
        and p1: "\<forall>e \<in> set pre. hash_sub rh h < hash_sub rh (snd e)"
        and p2: "\<forall>e \<in> set post. hash_sub rh h \<le> hash_sub rh (snd e)"
      have lt': "enat (hash_sub rh h) < bs"
        using lt True by (blast intro: less_trans)
      have "a # rest = (a # pre) @ (j, h) # post \<and>
         best_loop thr rh (a # rest) (bm, bs) = (Some j, enat (hash_sub rh h)) \<and>
         enat (hash_sub rh h) < bs \<and> int (hash_sub rh h) \<le> thr \<and>
         (\<forall>e \<in> set (a # pre). hash_sub rh h < hash_sub rh (snd e)) \<and>
         (\<forall>e \<in> set post. hash_sub rh h \<le> hash_sub rh (snd e))"
        using r b lt lt' le p1 p2 step a by auto
      then show ?thesis by blast
    qed
  next
    case False
    then have step: "best_loop thr rh (a # rest) (bm, bs) = best_loop thr rh rest (bm, bs)"
      by (auto simp: a)
    from Cons.IH [of bm bs] show ?thesis
    proof (elim disjE conjE exE)
      assume same: "best_loop thr rh rest (bm, bs) = (bm, bs)"
        and none: "\<forall>e \<in> set rest. \<not> (enat (hash_sub rh (snd e)) < bs \<and> int (hash_sub rh (snd e)) \<le> thr)"
      then show ?thesis using step False a by auto
    next
      fix pre j h post
      assume r: "rest = pre @ (j, h) # post"
        and b: "best_loop thr rh rest (bm, bs) = (Some j, enat (hash_sub rh h))"
        and lt: "enat (hash_sub rh h) < bs" and le: "int (hash_sub rh h) \<le> thr"
        and p1: "\<forall>e \<in> set pre. hash_sub rh h < hash_sub rh (snd e)"
        and p2: "\<forall>e \<in> set post. hash_sub rh h \<le> hash_sub rh (snd e)"
      have "hash_sub rh h < ?d0"
      proof (cases "enat ?d0 < bs")
        case True
        with False have "thr < int ?d0" by simp
        with le show ?thesis by simp
      next
        case False
        then have "bs \<le> enat ?d0" by simp
        with lt have "enat (hash_sub rh h) < enat ?d0" by (rule less_le_trans)
        then show ?thesis by simp
      qed
      then have "a # rest = (a # pre) @ (j, h) # post \<and>
         best_loop thr rh (a # rest) (bm, bs) = (Some j, enat (hash_sub rh h)) \<and>
         enat (hash_sub rh h) < bs \<and> int (hash_sub rh h) \<le> thr \<and>
         (\<forall>e \<in> set (a # pre). hash_sub rh h < hash_sub rh (snd e)) \<and>
         (\<forall>e \<in> set post. hash_sub rh h \<le> hash_sub rh (snd e))"
        using r b lt le p1 p2 step a by auto
      then show ?thesis by blast
    qed
  qed
qed

lemma closest_jpg_split:
  assumes "\<forall>e \<in> set pre. hash_sub rh h < hash_sub rh (snd e)"
    and "\<forall>e \<in> set post. hash_sub rh h \<le> hash_sub rh (snd e)"
  shows "closest_jpg rh (pre @ (j, h) # post) = Some (j, hash_sub rh h)"
proof -
  let ?al = "pre @ (j, h) # post"
  let ?d = "\<lambda>c. hash_sub rh (snd c)"
  have "Min (set (map ?d ?al)) = hash_sub rh h"
  proof (rule Min_eqI)
    show "finite (set (map ?d ?al))" by simp
    show "hash_sub rh h \<in> set (map ?d ?al)" by simp
    fix y assume "y \<in> set (map ?d ?al)"
    then show "hash_sub rh h \<le> y" using assms by (auto simp: less_imp_le)
  qed
  moreover have "find (\<lambda>c. ?d c = hash_sub rh h) ?al = Some (j, h)"
    using assms(1) by (intro find_split) auto
  ultimately show ?thesis by (simp add: closest_jpg_def)
qed

lemma closest_jpg_attained:
  assumes "closest_jpg rh al = Some (j, least)"
  shows "\<exists>h. (j, h) \<in> set al \<and> hash_sub rh h = least"
proof -
  from assms obtain c where "find (\<lambda>c. hash_sub rh (snd c) = least) al = Some c" and "fst c = j"
    by (auto simp: closest_jpg_def Let_def split: if_splits)
  then have "c \<in> set al" and "hash_sub rh (snd c) = least"
    by (auto simp: find_Some_iff)
  with \<open>fst c = j\<close> show ?thesis by (cases c) auto
qed

lemma best_loop_accepted:
  "best_loop thr rh al (None, \<infinity>) =
     (case accepted_jpg thr rh al of
        None \<Rightarrow> (None, \<infinity>)
      | Some (jpg_file, least) \<Rightarrow> (Some jpg_file, enat least))"
  using best_loop_cases [of thr rh al None \<infinity>]
proof (elim disjE conjE exE)
  assume same: "best_loop thr rh al (None, \<infinity>) = (None, \<infinity>)"
    and none: "\<forall>e \<in> set al. \<not> (enat (hash_sub rh (snd e)) < \<infinity> \<and> int (hash_sub rh (snd e)) \<le> thr)"
  have "accepted_jpg thr rh al = None"
  proof (cases "closest_jpg rh al")
    case None
    then show ?thesis by (simp add: accepted_jpg_def)
  next
    case (Some c)
    obtain j least where c: "c = (j, least)" by (cases c)
    from closest_jpg_attained [of rh al j least] Some c
    obtain h where "(j, h) \<in> set al" "hash_sub rh h = least" by auto
    with none have "\<not> int least \<le> thr" by force
    with Some c show ?thesis by (simp add: accepted_jpg_def)
  qed
  with same show ?thesis by simp
next
  fix pre j h post
  assume al: "al = pre @ (j, h) # post"
    and b: "best_loop thr rh al (None, \<infinity>) = (Some j, enat (hash_sub rh h))"
    and le: "int (hash_sub rh h) \<le> thr"
    and p1: "\<forall>e \<in> set pre. hash_sub rh h < hash_sub rh (snd e)"
    and p2: "\<forall>e \<in> set post. hash_sub rh h \<le> hash_sub rh (snd e)"
  have "closest_jpg rh al = Some (j, hash_sub rh h)"
    unfolding al using p1 p2 by (rule closest_jpg_split)
  with le have "accepted_jpg thr rh al = Some (j, hash_sub rh h)"
    by (simp add: accepted_jpg_def)
  with b show ?thesis by simp
qed

subsection \<open>The dictionary of JPG hashes\<close>

lemma update_known:
  assumes "\<forall>e \<in> set al. calc (fst e) = Some (snd e)" and "calc k = Some v"
  shows "AList.update k v al = (if k \<in> fst ` set al then al else al @ [(k, v)])"
  using assms by (induction al) auto

lemma jpg_hashes_loop_find:
  assumes "\<forall>e \<in> set acc. calc (fst e) = Some (snd e)"
  shows "find P (jpg_hashes_loop calc files acc) = find P (acc @ fingerprinted calc files)
       \<and> set (jpg_hashes_loop calc files acc) = set (acc @ fingerprinted calc files)"
  using assms
proof (induction files arbitrary: acc)
  case Nil
  show ?case by simp
next
  case (Cons f rest)
  show ?case
  proof (cases "calc f")
    case None
    with Cons show ?thesis by simp
  next
    case (Some h)
    show ?thesis
    proof (cases "f \<in> fst ` set acc")
      case True
      then obtain e where e: "e \<in> set acc" "fst e = f" by auto
      with Cons.prems Some have "snd e = h" by auto
      with e have mem: "(f, h) \<in> set acc" by (cases e) auto
      have "AList.update f h acc = acc"
        using update_known [OF Cons.prems Some] True by simp
      with Cons Some mem show ?thesis
        by (simp add: find_repeated insert_absorb)
    next
      case False
      have upd: "AList.update f h acc = acc @ [(f, h)]"
        using update_known [OF Cons.prems Some] False by simp
      have "\<forall>e \<in> set (acc @ [(f, h)]). calc (fst e) = Some (snd e)"
        using Cons.prems Some by auto
      from Cons.IH [OF this] Some upd show ?thesis by simp
    qed
  qed
qed

lemma closest_jpg_cong:
  assumes "\<And>P. find P al = find P bl" and "set al = set bl"
  shows "closest_jpg rh al = closest_jpg rh bl"
proof -
  have "al = [] \<longleftrightarrow> bl = []" using assms(2) by (metis set_empty)
  moreover have "set (map (\<lambda>c. hash_sub rh (snd c)) al) = set (map (\<lambda>c. hash_sub rh (snd c)) bl)"
    using assms(2) by simp
  ultimately show ?thesis
    unfolding closest_jpg_def Let_def using assms(1) by presburger
qed

lemma accepted_jpg_dict:
  "accepted_jpg thr rh (jpg_hashes_loop calc files []) = accepted_jpg thr rh (fingerprinted calc files)"
proof -
  have "closest_jpg rh (jpg_hashes_loop calc files []) = closest_jpg rh (fingerprinted calc files)"
    using jpg_hashes_loop_find [of "[]" calc _ files]
    by (intro closest_jpg_cong) simp_all
  then show ?thesis by (simp add: accepted_jpg_def)
qed

subsection \<open>The loop over the RAW files\<close>

lemma raw_loop_eq:
  "raw_loop calc thr (jpg_hashes_loop calc jpgs []) raws prs =
     prs @ concat (map (match_of calc thr jpgs) raws)"
proof (induction raws arbitrary: prs)
  case Nil
  show ?case by simp
next
  case (Cons r raws)
  show ?case
  proof (cases "calc r")
    case None
    with Cons show ?thesis by (simp add: match_of_def)
  next
    case (Some rh)
    show ?thesis
    proof (cases "accepted_jpg thr rh (fingerprinted calc jpgs)")
      case None
      with Some Cons show ?thesis
        by (simp add: match_of_def best_loop_accepted accepted_jpg_dict)
    next
      case (Some c)
      obtain j least where "c = (j, least)" by (cases c)
      with Some \<open>calc r = Some rh\<close> Cons show ?thesis
        by (simp add: match_of_def best_loop_accepted accepted_jpg_dict)
    qed
  qed
qed

lemma find_pairs_eq:
  "find_pairs calc core =
     (spec_find_pairs calc (similarity_threshold core) (raw_files core) (jpg_files core),
      core\<lparr>pairs := spec_find_pairs calc (similarity_threshold core) (raw_files core) (jpg_files core)\<rparr>)"
  by (simp add: find_pairs_def Let_def raw_loop_eq spec_find_pairs_def)

subsection \<open>Distances of the example\<close>

lemma high_bits_clear:
  fixes w :: "256 word"
  assumes "take_bit k w = w" and "k \<le> n"
  shows "\<not> bit w n"
proof
  assume "bit w n"
  then have "bit (take_bit k w) n" by (simp only: assms(1))
  then have "n < k" by (simp only: bit_take_bit_iff)
  with assms(2) show False by simp
qed

lemma hash_sub_below:
  assumes "take_bit k (a XOR b) = a XOR b" and "k \<le> 256"
  shows "hash_sub a b = length (filter (bit (a XOR b)) [0..<k])"
proof -
  have split: "[0..<256] = [0..<k] @ [k..<256]"
    using assms(2) upt_add_eq_append [of 0 k "256 - k"] by simp
  have "\<not> bit (a XOR b) n" if "k \<le> n" for n
    using assms(1) that by (rule high_bits_clear)
  then have "filter (bit (a XOR b)) [k..<256] = []" by (auto simp: filter_empty_conv)
  then show ?thesis by (simp add: hash_sub_def split)
qed

lemma hash_sub_examples:
  "hash_sub 3 0 = 2" "hash_sub 7 0 = 3" "hash_sub 0xFF 0 = 8"
  "hash_sub 3 0xFF00 = 10" "hash_sub 7 0xFF00 = 11" "hash_sub 0xFF 0xFF00 = 16"
  by (simp_all add: hash_sub_below [where k = 16] upt_rec [of _ "numeral n" for n]
      bit_numeral_simps)

lemma find_pairs_B:
  "fst (find_pairs calc_B core_B) =
     [([''photos'', ''raw'', ''IMG_0001.CR2''], [''photos'', ''jpg'', ''Wedding_042.jpg''], enat 2),
      ([''photos'', ''raw'', ''IMG_0002.NEF''], [''photos'', ''jpg'', ''Wedding_042.jpg''], enat 3)]"
  by (simp add: find_pairs_def core_B_def init_core_def calc_B_def hash_sub_examples)

lemma find_pairs_B_10:
  "fst (find_pairs calc_B (core_B\<lparr>similarity_threshold := 10\<rparr>)) =
     [([''photos'', ''raw'', ''IMG_0001.CR2''], [''photos'', ''jpg'', ''Wedding_042.jpg''], enat 2),
      ([''photos'', ''raw'', ''IMG_0002.NEF''], [''photos'', ''jpg'', ''Wedding_042.jpg''], enat 3),
      ([''photos'', ''raw'', ''IMG_0003.CR2''], [''photos'', ''jpg'', ''Wedding_042.jpg''], enat 8)]"
  by (simp add: find_pairs_def core_B_def init_core_def calc_B_def hash_sub_examples)

subsection \<open>Claims\<close>

text \<open>
  Claim C1. The pairs are, for each RAW file in order: nothing when its fingerprint
  failed; nothing when no JPG file has a fingerprint; otherwise the first JPG file, in
  iteration order, among those with the least distance to the RAW fingerprint, paired
  with that distance if and only if the distance is at most the threshold.
\<close>

theorem C1_find_pairs_best_match:
  "fst (find_pairs calc core) =
     concat (map (\<lambda>raw_file.
       case calc raw_file of
         None \<Rightarrow> []
       | Some raw_hash \<Rightarrow>
           (case closest_jpg raw_hash (fingerprinted calc (jpg_files core)) of
              None \<Rightarrow> []
            | Some (jpg_file, least) \<Rightarrow>
                if int least \<le> similarity_threshold core
                then [(raw_file, jpg_file, enat least)] else []))
       (raw_files core))"
proof -
  have "match_of calc (similarity_threshold core) (jpg_files core) =
    (\<lambda>raw_file.
       case calc raw_file of
         None \<Rightarrow> []
       | Some raw_hash \<Rightarrow>
           (case closest_jpg raw_hash (fingerprinted calc (jpg_files core)) of
              None \<Rightarrow> []
            | Some (jpg_file, least) \<Rightarrow>
                if int least \<le> similarity_threshold core
                then [(raw_file, jpg_file, enat least)] else []))"
    by (auto simp: fun_eq_iff match_of_def accepted_jpg_def split: option.splits)
  then show ?thesis
    by (simp add: find_pairs_eq spec_find_pairs_def)
qed

text \<open>
  Claim C1 on the example: the tie between a JPG file and its copy goes to the one met
  first, and the RAW file 8 away from its closest JPG file has no pair at threshold 5.
\<close>

theorem C1_find_pairs_best_match_witness:
  "fst (find_pairs calc_B core_B) =
     [([''photos'', ''raw'', ''IMG_0001.CR2''], [''photos'', ''jpg'', ''Wedding_042.jpg''], enat 2),
      ([''photos'', ''raw'', ''IMG_0002.NEF''], [''photos'', ''jpg'', ''Wedding_042.jpg''], enat 3)] \<and>
   closest_jpg 0xFF (fingerprinted calc_B (jpg_files core_B))
     = Some ([''photos'', ''jpg'', ''Wedding_042.jpg''], 8) \<and>
   calc_B [''photos'', ''raw'', ''IMG_0004.CR2''] = None"
proof -
  have fp: "fingerprinted calc_B (jpg_files core_B) =
      [([''photos'', ''jpg'', ''Wedding_041.jpg''], 0xFF00),
       ([''photos'', ''jpg'', ''Wedding_042.jpg''], 0),
       ([''photos'', ''jpg'', ''Wedding_042_copy.jpg''], 0)]"
    by (simp add: core_B_def init_core_def calc_B_def)
  have c1: "closest_jpg 3 (fingerprinted calc_B (jpg_files core_B))
     = Some ([''photos'', ''jpg'', ''Wedding_042.jpg''], 2)"
    and c2: "closest_jpg 7 (fingerprinted calc_B (jpg_files core_B))
     = Some ([''photos'', ''jpg'', ''Wedding_042.jpg''], 3)"
    and c3: "closest_jpg 0xFF (fingerprinted calc_B (jpg_files core_B))
     = Some ([''photos'', ''jpg'', ''Wedding_042.jpg''], 8)"
    unfolding fp by (simp_all add: closest_jpg_def hash_sub_examples)
  have raws: "raw_files core_B = [ [''photos'', ''raw'', ''IMG_0001.CR2''],
                    [''photos'', ''raw'', ''IMG_0002.NEF''],
                    [''photos'', ''raw'', ''IMG_0003.CR2''],
                    [''photos'', ''raw'', ''IMG_0004.CR2'']]"
    and thr: "similarity_threshold core_B = 5"
    by (simp_all add: core_B_def init_core_def)
  have calcs: "calc_B [''photos'', ''raw'', ''IMG_0001.CR2''] = Some 3"
    "calc_B [''photos'', ''raw'', ''IMG_0002.NEF''] = Some 7"
    "calc_B [''photos'', ''raw'', ''IMG_0003.CR2''] = Some 0xFF"
    "calc_B [''photos'', ''raw'', ''IMG_0004.CR2''] = None"
    by (simp_all add: calc_B_def)
  show ?thesis
    using C1_find_pairs_best_match [of calc_B core_B]
    by (simp add: raws thr calcs c1 c2 c3)
qed

lemma accepted_jpg_mono:
  "T1 \<le> T2 \<Longrightarrow> accepted_jpg T1 rh al = Some c \<Longrightarrow> accepted_jpg T2 rh al = Some c"
  by (auto simp: accepted_jpg_def split: option.splits if_splits)

lemma match_of_mono:
  assumes "T1 \<le> T2"
  shows "set (match_of calc T1 jpgs r) \<subseteq> set (match_of calc T2 jpgs r)"
proof (cases "calc r")
  case None
  then show ?thesis by (simp add: match_of_def)
next
  case (Some rh)
  show ?thesis
  proof (cases "accepted_jpg T1 rh (fingerprinted calc jpgs)")
    case None
    with Some show ?thesis by (simp add: match_of_def)
  next
    case (Some c)
    with assms have "accepted_jpg T2 rh (fingerprinted calc jpgs) = Some c"
      by (rule accepted_jpg_mono)
    with Some \<open>calc r = Some rh\<close> show ?thesis by (simp add: match_of_def)
  qed
qed

text \<open>
  Claim C5. For thresholds \<open>T1 < T2\<close> and the same files and fingerprints, every pair
  found with \<open>T1\<close> is found with \<open>T2\<close>.
\<close>

theorem C5_threshold_monotone:
  assumes "T1 < T2"
  shows "set (fst (find_pairs calc (core\<lparr>similarity_threshold := T1\<rparr>)))
       \<subseteq> set (fst (find_pairs calc (core\<lparr>similarity_threshold := T2\<rparr>)))"
proof -
  from assms have "T1 \<le> T2" by simp
  then have "\<And>r. set (match_of calc T1 (jpg_files core) r) \<subseteq> set (match_of calc T2 (jpg_files core) r)"
    by (rule match_of_mono)
  then show ?thesis
    by (fastforce simp: find_pairs_eq spec_find_pairs_def)
qed

text \<open>Claim C5 at thresholds 5 and 10, where the larger one gains a pair.\<close>

theorem C5_threshold_monotone_witness:
  "(5::int) < 10 \<and>
   set (fst (find_pairs calc_B (core_B\<lparr>similarity_threshold := 5\<rparr>)))
     \<subseteq> set (fst (find_pairs calc_B (core_B\<lparr>similarity_threshold := 10\<rparr>))) \<and>
   ([''photos'', ''raw'', ''IMG_0003.CR2''], [''photos'', ''jpg'', ''Wedding_042.jpg''], enat 8)
     \<in> set (fst (find_pairs calc_B (core_B\<lparr>similarity_threshold := 10\<rparr>)))"
proof -
  have h: "(5::int) < 10" by simp
  show ?thesis
    using h C5_threshold_monotone [OF h, of calc_B core_B] by (simp add: find_pairs_B_10)
qed

lemma distinct_filter_eq_le_1:
  "distinct xs \<Longrightarrow> length (filter (\<lambda>y. y = x) xs) \<le> 1"
  by (induction xs) (auto simp: filter_empty_conv)

lemma length_match_of: "length (match_of calc thr jpgs r) \<le> 1"
  by (auto simp: match_of_def split: option.splits)

lemma fst_match_of: "p \<in> set (match_of calc thr jpgs r) \<Longrightarrow> fst p = r"
  by (auto simp: match_of_def split: option.splits)

lemma map_fst_spec_find_pairs:
  "map fst (spec_find_pairs calc thr raws jpgs) =
     filter (\<lambda>r. match_of calc thr jpgs r \<noteq> []) raws"
proof (induction raws)
  case Nil
  show ?case by (simp add: spec_find_pairs_def)
next
  case (Cons r raws)
  have "map fst (match_of calc thr jpgs r) = (if match_of calc thr jpgs r \<noteq> [] then [r] else [])"
    by (auto simp: match_of_def split: option.splits)
  with Cons show ?case by (simp add: spec_find_pairs_def)
qed

text \<open>
  Claim C9. The RAW files of the pairs are a subsequence of the scanned RAW files, so
  that each scanned RAW file has at most one pair; and one JPG file can be the match of
  two different RAW files, as in the example.
\<close>

theorem C9_one_pair_per_raw:
  "subseq (map fst (fst (find_pairs calc core))) (raw_files core) \<and>
   (distinct (raw_files core) \<longrightarrow>
      distinct (map fst (fst (find_pairs calc core))) \<and>
      (\<forall>raw_file. length (filter (\<lambda>p. fst p = raw_file) (fst (find_pairs calc core))) \<le> 1)) \<and>
   ([''photos'', ''raw'', ''IMG_0001.CR2''] \<noteq> [''photos'', ''raw'', ''IMG_0002.NEF''] \<and>
    ([''photos'', ''raw'', ''IMG_0001.CR2''], [''photos'', ''jpg'', ''Wedding_042.jpg''], enat 2)
      \<in> set (fst (find_pairs calc_B core_B)) \<and>
    ([''photos'', ''raw'', ''IMG_0002.NEF''], [''photos'', ''jpg'', ''Wedding_042.jpg''], enat 3)
      \<in> set (fst (find_pairs calc_B core_B)))"
proof (intro conjI impI allI)
  let ?prs = "fst (find_pairs calc core)"
  have keys: "map fst ?prs =
      filter (\<lambda>r. match_of calc (similarity_threshold core) (jpg_files core) r \<noteq> []) (raw_files core)"
    by (simp add: find_pairs_eq map_fst_spec_find_pairs)
  show "subseq (map fst ?prs) (raw_files core)"
    unfolding keys by (rule subseq_filter_left)
  {
    assume d: "distinct (raw_files core)"
    then show dk: "distinct (map fst ?prs)"
      unfolding keys by (rule distinct_filter)
    fix raw_file
    have "length (filter (\<lambda>r. r = raw_file) (map fst ?prs)) \<le> 1"
      using dk by (rule distinct_filter_eq_le_1)
    moreover have "length (filter (\<lambda>p. fst p = raw_file) ?prs)
        = length (filter (\<lambda>r. r = raw_file) (map fst ?prs))"
      by (simp add: filter_map comp_def)
    ultimately show "length (filter (\<lambda>p. fst p = raw_file) ?prs) \<le> 1" by simp
  }
  show "[''photos'', ''raw'', ''IMG_0001.CR2''] \<noteq> [''photos'', ''raw'', ''IMG_0002.NEF'']"
    by simp
  show "([''photos'', ''raw'', ''IMG_0001.CR2''], [''photos'', ''jpg'', ''Wedding_042.jpg''], enat 2)
      \<in> set (fst (find_pairs calc_B core_B))"
    by (simp add: find_pairs_B)
  show "([''photos'', ''raw'', ''IMG_0002.NEF''], [''photos'', ''jpg'', ''Wedding_042.jpg''], enat 3)
      \<in> set (fst (find_pairs calc_B core_B))"
    by (simp add: find_pairs_B)
qed

text \<open>Claim C9 on the example.\<close>

theorem C9_one_pair_per_raw_witness:
  "distinct (raw_files core_B) \<and>
   distinct (map fst (fst (find_pairs calc_B core_B))) \<and>
   length (filter (\<lambda>p. fst p = [''photos'', ''raw'', ''IMG_0001.CR2''])
             (fst (find_pairs calc_B core_B))) \<le> 1"
proof -
  have h: "distinct (raw_files core_B)"
    by (simp add: core_B_def init_core_def)
  show ?thesis
    using h C9_one_pair_per_raw [of calc_B core_B] by blast
qed

text \<open>
  Claim C10. Pairing and planning are functions of the two file lists, the threshold,
  the fingerprints and the disk: two engines that agree on the lists and the threshold
  produce the same pairs and the same plan, whatever else they hold; pairing again on
  the same engine gives the same pairs; and the plan is the image of a subsequence of the
  pairs, in the same order.
\<close>

theorem C10_pipeline_deterministic:
  assumes "raw_files core1 = raw_files core2" and "jpg_files core1 = jpg_files core2"
    and "similarity_threshold core1 = similarity_threshold core2"
  shows "fst (find_pairs calc core1) = fst (find_pairs calc core2) \<and>
         generate_rename_plan fs (snd (find_pairs calc core1))
           = generate_rename_plan fs (snd (find_pairs calc core2)) \<and>
         fst (find_pairs calc (snd (find_pairs calc core1))) = fst (find_pairs calc core1) \<and>
         (\<exists>kept. subseq kept (fst (find_pairs calc core1)) \<and>
            generate_rename_plan fs (snd (find_pairs calc core1)) =
              map (\<lambda>(raw_file, jpg_file, similarity).
                     (raw_file, joinpath (parent raw_file) (stem jpg_file @ path_suffix raw_file)))
                kept)"
proof (intro conjI)
  show "fst (find_pairs calc core1) = fst (find_pairs calc core2)"
    using assms by (simp add: find_pairs_eq)
  show "generate_rename_plan fs (snd (find_pairs calc core1))
      = generate_rename_plan fs (snd (find_pairs calc core2))"
    using assms by (simp add: find_pairs_eq generate_rename_plan_eq)
  show "fst (find_pairs calc (snd (find_pairs calc core1))) = fst (find_pairs calc core1)"
    by (simp add: find_pairs_eq)
  have "subseq (filter (planned fs) (fst (find_pairs calc core1))) (fst (find_pairs calc core1))"
    by (rule subseq_filter_left)
  moreover have "generate_rename_plan fs (snd (find_pairs calc core1)) =
      map (\<lambda>(raw_file, jpg_file, similarity).
             (raw_file, joinpath (parent raw_file) (stem jpg_file @ path_suffix raw_file)))
        (filter (planned fs) (fst (find_pairs calc core1)))"
    by (simp add: find_pairs_eq generate_rename_plan_eq target_path_def)
  ultimately show "\<exists>kept. subseq kept (fst (find_pairs calc core1)) \<and>
      generate_rename_plan fs (snd (find_pairs calc core1)) =
        map (\<lambda>(raw_file, jpg_file, similarity).
               (raw_file, joinpath (parent raw_file) (stem jpg_file @ path_suffix raw_file)))
          kept"
    by blast
qed

text \<open>Claim C10 on the example, for an engine that holds stale pairs.\<close>

lemma plan_B:
  "generate_rename_plan disk_A (snd (find_pairs calc_B core_B)) =
     [([''photos'', ''raw'', ''IMG_0001.CR2''], [''photos'', ''raw'', ''Wedding_042.CR2'']),
      ([''photos'', ''raw'', ''IMG_0002.NEF''], [''photos'', ''raw'', ''Wedding_042.NEF''])]"
proof -
  have "pairs (snd (find_pairs calc_B core_B)) = fst (find_pairs calc_B core_B)"
    by (simp add: find_pairs_eq)
  then show ?thesis
    by (simp add: generate_rename_plan_def find_pairs_B disk_A_def path_exists_def
      stem_def path_suffix_def name_def rfind_dot_def parent_def joinpath_def)
qed

theorem C10_pipeline_deterministic_witness:
  "raw_files core_B = raw_files (core_B\<lparr>pairs := pairs core_A, log_file := Some [''old'']\<rparr>) \<and>
   fst (find_pairs calc_B core_B)
     = fst (find_pairs calc_B (core_B\<lparr>pairs := pairs core_A, log_file := Some [''old'']\<rparr>)) \<and>
   generate_rename_plan disk_A (snd (find_pairs calc_B (core_B\<lparr>pairs := pairs core_A, log_file := Some [''old'']\<rparr>))) =
     [([''photos'', ''raw'', ''IMG_0001.CR2''], [''photos'', ''raw'', ''Wedding_042.CR2'']),
      ([''photos'', ''raw'', ''IMG_0002.NEF''], [''photos'', ''raw'', ''Wedding_042.NEF''])]"
proof -
  let ?c2 = "core_B\<lparr>pairs := pairs core_A, log_file := Some [''old'']\<rparr>"
  have h1: "raw_files core_B = raw_files ?c2" by simp
  have h2: "jpg_files core_B = jpg_files ?c2" by simp
  have h3: "similarity_threshold core_B = similarity_threshold ?c2" by simp
  show ?thesis
    using h1 C10_pipeline_deterministic [OF h1 h2 h3, of calc_B disk_A] plan_B by simp
qed

section \<open>The restore engine\<close>

lemma restore_loop_eq:
  "restore_loop rename fs ops restored errors =
     (restored_fs rename fs ops, restored + restored_count rename fs ops,
      errors @ restore_errors rename fs ops)"
proof (induction ops arbitrary: fs restored errors)
  case Nil
  show ?case by simp
next
  case (Cons operation rest)
  show ?case
  proof (cases "restore_step rename fs operation")
    case None
    then show ?thesis using Cons by (auto simp: restore_step_def Let_def split: if_splits)
  next
    case (Some r)
    then show ?thesis using Cons
      by (cases r) (auto simp: restore_step_def Let_def split: if_splits)
  qed
qed

lemma restore_backup_eq:
  "restore_backup rename fs backup_file =
     (case read_json fs backup_file of
        Inl e \<Rightarrow> (Inl e, fs)
      | Inr backup \<Rightarrow>
          (Inr (restored_count rename fs (operations backup),
                restore_errors rename fs (operations backup)),
           restored_fs rename fs (operations backup)))"
  by (simp add: restore_backup_def restore_loop_eq split: sum.splits)

lemma later_refl: "later T f f"
  by (simp add: later_def)

lemma later_trans: "later T f g \<Longrightarrow> later T g h \<Longrightarrow> later T f h"
  unfolding later_def by (metis)

lemma path_rename_Inr:
  assumes "path_rename f old new = Inr f'" and "old \<noteq> new"
  shows "\<exists>c. entries f old = Some (RegularFile c) \<and> old \<notin> locked f \<and> new \<notin> locked f \<and>
             walk_errno f new = None \<and> entries f new \<noteq> Some Directory \<and>
             f' = f\<lparr>entries := (entries f)(old := None, new := Some (RegularFile c))\<rparr>"
  using assms by (auto simp: path_rename_def split: option.splits node.splits if_splits)

lemma path_rename_frame:
  "path_rename f old new = Inr f' \<Longrightarrow> p \<noteq> old \<Longrightarrow> p \<noteq> new \<Longrightarrow> entries f' p = entries f p"
  by (auto simp: path_rename_def split: option.splits node.splits if_splits)

lemma restore_step_later:
  assumes "restore_step path_rename f operation = Some (Inr f')"
    and "new_path operation \<in> T" and "old_path operation \<notin> T"
  shows "later T f f' \<and> entries f' (new_path operation) = None"
proof -
  from assms(1) have "path_rename f (new_path operation) (old_path operation) = Inr f'"
    by (auto simp: restore_step_def split: if_splits)
  moreover from assms(2,3) have ne: "new_path operation \<noteq> old_path operation" by auto
  ultimately obtain c where
    c: "entries f (new_path operation) = Some (RegularFile c)"
    and nd: "entries f (old_path operation) \<noteq> Some Directory"
    and f': "f' = f\<lparr>entries := (entries f)(new_path operation := None,
                                           old_path operation := Some (RegularFile c))\<rparr>"
    using path_rename_Inr [of f "new_path operation" "old_path operation" f'] by blast
  show ?thesis
    using c nd ne assms(3) unfolding later_def f' is_dir_def by auto
qed

lemma restored_fs_later:
  assumes "\<forall>operation \<in> set ops. new_path operation \<in> T \<and> old_path operation \<notin> T"
  shows "later T f (restored_fs path_rename f ops)"
  using assms
proof (induction ops arbitrary: f)
  case Nil
  show ?case by (simp add: later_refl)
next
  case (Cons operation rest)
  then have rest: "\<forall>operation \<in> set rest. new_path operation \<in> T \<and> old_path operation \<notin> T"
    and here: "new_path operation \<in> T" "old_path operation \<notin> T"
    by auto
  show ?case
  proof (cases "restore_step path_rename f operation")
    case None
    then show ?thesis using Cons.IH [OF rest, of f] by simp
  next
    case (Some r)
    show ?thesis
    proof (cases r)
      case (Inl e)
      with Some show ?thesis using Cons.IH [OF rest, of f] by simp
    next
      case (Inr f')
      with Some restore_step_later [of f operation f' T] here
      have "later T f f'" by simp
      moreover have "later T f' (restored_fs path_rename f' rest)" by (rule Cons.IH [OF rest])
      ultimately show ?thesis using Some Inr by (simp add: later_trans)
    qed
  qed
qed

lemma path_rename_fails_later:
  assumes "later T f g" and "new \<in> T"
    and "path_rename f new old = Inl e" and "entries f new \<noteq> None" and "entries g new \<noteq> None"
  shows "\<exists>e'. path_rename g new old = Inl e'"
proof -
  from assms(1,2,5) have same: "entries g new = entries f new"
    by (auto simp: later_def)
  from assms(1) have lk: "locked g = locked f" and dir: "\<forall>p. is_dir g p = is_dir f p"
    by (auto simp: later_def)
  from dir have od: "entries g old = Some Directory \<longleftrightarrow> entries f old = Some Directory"
    by (simp add: is_dir_def)
  from dir have wk: "(walk_errno g old = None) = (walk_errno f old = None)"
    by (rule walk_errno_cong)
  from assms(4) obtain source where source: "entries f new = Some source" by auto
  show ?thesis
  proof (cases "walk_errno f old")
    case (Some er)
    with wk obtain er' where "walk_errno g old = Some er'" by auto
    with source same show ?thesis by (simp add: path_rename_def)
  next
    case None
    with wk have gN: "walk_errno g old = None" by simp
    show ?thesis
    proof (cases source)
      case Directory
      with source same gN show ?thesis
        using assms(3) None lk
        by (auto simp: path_rename_def split: if_splits)
    next
      case (RegularFile c)
      with source same gN show ?thesis
        using assms(3) None lk od
        by (auto simp: path_rename_def split: if_splits)
    qed
  qed
qed

lemma restore_step_again:
  assumes "later T f1 g" and "new_path operation \<in> T" and "old_path operation \<notin> T"
    and "case restore_step path_rename f operation of Some (Inr f') \<Rightarrow> f1 = f' | _ \<Rightarrow> f1 = f"
  shows "restore_step path_rename g operation = None \<or> (\<exists>e. restore_step path_rename g operation = Some (Inl e))"
proof (cases "status operation = ''success'' \<and> path_exists g (new_path operation)")
  case False
  then have "restore_step path_rename g operation = None" by (auto simp: restore_step_def)
  then show ?thesis by simp
next
  case True
  then have gx: "entries g (new_path operation) \<noteq> None" by (simp add: path_exists_def)
  with assms(1,2) have f1x: "entries f1 (new_path operation) \<noteq> None"
    by (auto simp: later_def)
  show ?thesis
  proof (cases "restore_step path_rename f operation")
    case None
    with assms(4) have "f1 = f" by simp
    with None True f1x show ?thesis by (simp add: restore_step_def path_exists_def)
  next
    case (Some r)
    show ?thesis
    proof (cases r)
      case (Inr f')
      with Some assms(4) have "f1 = f'" by simp
      with restore_step_later [of f operation f' T] Some Inr assms(2,3) f1x
      show ?thesis by simp
    next
      case (Inl e)
      with Some assms(4) have f1: "f1 = f" by simp
      from Some Inl have "path_rename f (new_path operation) (old_path operation) = Inl e"
        by (auto simp: restore_step_def split: if_splits)
      with path_rename_fails_later [of T f g "new_path operation" "old_path operation" e]
        assms(1,2) f1 f1x gx
      obtain e' where "path_rename g (new_path operation) (old_path operation) = Inl e'"
        by auto
      with True show ?thesis by (simp add: restore_step_def)
    qed
  qed
qed

lemma restored_fs_idem:
  assumes "\<forall>operation \<in> set ops. new_path operation \<in> T \<and> old_path operation \<notin> T"
  shows "restored_fs path_rename (restored_fs path_rename f ops) ops = restored_fs path_rename f ops \<and>
         restored_count path_rename (restored_fs path_rename f ops) ops = 0"
  using assms
proof (induction ops arbitrary: f)
  case Nil
  show ?case by simp
next
  case (Cons operation rest)
  then have rest: "\<forall>operation \<in> set rest. new_path operation \<in> T \<and> old_path operation \<notin> T"
    and here: "new_path operation \<in> T" "old_path operation \<notin> T"
    by auto
  define f1 where "f1 = (case restore_step path_rename f operation of Some (Inr f') \<Rightarrow> f' | _ \<Rightarrow> f)"
  define g where "g = restored_fs path_rename f1 rest"
  have g: "restored_fs path_rename f (operation # rest) = g"
    by (simp add: g_def f1_def split: option.splits sum.splits)
  have "later T f1 g" unfolding g_def by (rule restored_fs_later [OF rest])
  moreover have "case restore_step path_rename f operation of Some (Inr f') \<Rightarrow> f1 = f' | _ \<Rightarrow> f1 = f"
    by (simp add: f1_def split: option.splits sum.splits)
  ultimately have "restore_step path_rename g operation = None \<or> (\<exists>e. restore_step path_rename g operation = Some (Inl e))"
    using here by (intro restore_step_again [of T f1 g operation f]) 
  then have "restored_fs path_rename g (operation # rest) = restored_fs path_rename g rest"
    and "restored_count path_rename g (operation # rest) = restored_count path_rename g rest"
    by auto
  moreover from Cons.IH [OF rest, of f1]
  have "restored_fs path_rename g rest = g \<and> restored_count path_rename g rest = 0" by (simp add: g_def)
  ultimately show ?case unfolding g by simp
qed

lemma restored_fs_frame:
  assumes "\<forall>operation \<in> set ops. old_path operation \<noteq> p \<and> new_path operation \<noteq> p"
  shows "entries (restored_fs path_rename f ops) p = entries f p"
  using assms
proof (induction ops arbitrary: f)
  case Nil
  show ?case by simp
next
  case (Cons operation rest)
  then have rest: "\<forall>operation \<in> set rest. old_path operation \<noteq> p \<and> new_path operation \<noteq> p"
    and here: "old_path operation \<noteq> p" "new_path operation \<noteq> p"
    by auto
  show ?case
  proof (cases "restore_step path_rename f operation")
    case None
    then show ?thesis using Cons.IH [OF rest, of f] by simp
  next
    case (Some r)
    show ?thesis
    proof (cases r)
      case (Inl e)
      with Some show ?thesis using Cons.IH [OF rest, of f] by simp
    next
      case (Inr f')
      with Some have "path_rename f (new_path operation) (old_path operation) = Inr f'"
        by (auto simp: restore_step_def split: if_splits)
      from path_rename_frame [OF this] here have "entries f' p = entries f p" by auto
      with Some Inr Cons.IH [OF rest, of f'] show ?thesis by simp
    qed
  qed
qed

lemma read_json_cong:
  "entries g p = entries f p \<Longrightarrow> read_json f p = Inr b \<Longrightarrow> read_json g p = Inr b"
  by (auto simp: read_json_def split: option.splits node.splits contents.splits if_splits)

lemma read_json_missing: "entries g p = None \<Longrightarrow> \<exists>e. read_json g p = Inl e"
  by (simp add: read_json_def)

lemma plan_sources_targets:
  assumes "\<forall>(raw_file, jpg_file, similarity) \<in> set (pairs core). path_exists fs0 raw_file"
    and "(source, target) \<in> set (generate_rename_plan fs0 core)"
  shows "path_exists fs0 source \<and> \<not> path_exists fs0 target \<and>
         (\<exists>jpg_file similarity. (source, jpg_file, similarity) \<in> set (pairs core))"
  using assms unfolding generate_rename_plan_eq by (auto simp: planned_def)

lemma execute_rename_Inr:
  assumes "execute_rename rename stamp isotime fs0 core plan = (Inr (n, the_log), core', fs1)"
  shows "\<exists>backup. read_json fs1 the_log = Inr backup \<and>
           operations backup = records_of rename fs0 plan"
proof -
  let ?log = "joinpath (raw_folder_path core) (''rename_backup_'' @ stamp @ ''.json'')"
  let ?backup = "\<lparr>timestamp = isotime, raw_folder = raw_folder_path core,
      jpg_folder = jpg_folder_path core, operations = records_of rename fs0 plan\<rparr>"
  from assms have "write_json (fs_after rename fs0 plan) ?log ?backup = (None, fs1)"
    and "the_log = ?log"
    by (auto simp: execute_rename_def rename_loop_eq Let_def split: prod.splits option.splits)
  then have "read_json fs1 the_log = Inr ?backup"
    by (simp add: write_json_None)
  then show ?thesis by auto
qed

lemma records_of_mem:
  "operation \<in> set (records_of path_rename fs0 plan) \<Longrightarrow> (old_path operation, new_path operation) \<in> set plan"
proof -
  assume "operation \<in> set (records_of path_rename fs0 plan)"
  then have "(old_path operation, new_path operation)
      \<in> set (map (\<lambda>r. (old_path r, new_path r)) (records_of path_rename fs0 plan))"
    by simp
  then show ?thesis by (simp only: records_of_paths)
qed

text \<open>
  Claim C6. Take the log written by executing the plan made for pairs whose RAW files
  are on disk (none of them being the log file itself). Restoring from this log, on any
  disk that holds it, and then restoring from it again leaves the disk as the first
  restore left it, and the second restore restores nothing.
\<close>

theorem C6_restore_twice_unchanged:
  assumes "\<forall>(raw_file, jpg_file, similarity) \<in> set (pairs core).
             path_exists fs0 raw_file \<and> raw_file \<noteq> the_log"
    and "execute_rename path_rename stamp isotime fs0 core (generate_rename_plan fs0 core)
           = (Inr (n, the_log), core', fs1)"
    and "read_json fs the_log = read_json fs1 the_log"
  shows "snd (restore_backup path_rename (snd (restore_backup path_rename fs the_log)) the_log)
           = snd (restore_backup path_rename fs the_log) \<and>
         (\<forall>restored errors.
            fst (restore_backup path_rename (snd (restore_backup path_rename fs the_log)) the_log) = Inr (restored, errors)
            \<longrightarrow> restored = 0)"
proof -
  let ?plan = "generate_rename_plan fs0 core"
  let ?T = "snd ` set ?plan"
  from execute_rename_Inr [OF assms(2)] obtain backup where
    rd1: "read_json fs1 the_log = Inr backup" and ops: "operations backup = records_of path_rename fs0 ?plan"
    by blast
  let ?ops = "operations backup"
  have ex: "\<forall>(raw_file, jpg_file, similarity) \<in> set (pairs core). path_exists fs0 raw_file"
    using assms(1) by auto
  have paths: "new_path operation \<in> ?T \<and> old_path operation \<notin> ?T \<and> old_path operation \<noteq> the_log"
    if "operation \<in> set ?ops" for operation
  proof -
    from that ops have mem: "(old_path operation, new_path operation) \<in> set ?plan"
      by (simp add: records_of_mem)
    from plan_sources_targets [OF ex mem] have src: "path_exists fs0 (old_path operation)"
      and raw: "\<exists>jpg_file similarity. (old_path operation, jpg_file, similarity) \<in> set (pairs core)"
      by auto
    have "old_path operation \<notin> ?T"
    proof
      assume "old_path operation \<in> ?T"
      then obtain s where "(s, old_path operation) \<in> set ?plan" by auto
      from plan_sources_targets [OF ex this] src show False by simp
    qed
    moreover from mem have "new_path operation \<in> ?T" by force
    moreover from raw assms(1) have "old_path operation \<noteq> the_log" by auto
    ultimately show ?thesis by simp
  qed
  define fs2 where "fs2 = restored_fs path_rename fs ?ops"
  have first: "restore_backup path_rename fs the_log
      = (Inr (restored_count path_rename fs ?ops, restore_errors path_rename fs ?ops), fs2)"
    using assms(3) rd1 by (simp add: restore_backup_eq fs2_def)
  have TS: "\<forall>operation \<in> set ?ops. new_path operation \<in> ?T \<and> old_path operation \<notin> ?T"
    using paths by blast
  from restored_fs_idem [OF TS, of fs]
  have idem: "restored_fs path_rename fs2 ?ops = fs2" "restored_count path_rename fs2 ?ops = 0"
    by (simp_all add: fs2_def)
  have "entries fs2 the_log = entries fs the_log \<or> entries fs2 the_log = None"
  proof (cases "the_log \<in> ?T")
    case True
    with restored_fs_later [OF TS, of fs] show ?thesis
      by (auto simp: later_def fs2_def)
  next
    case False
    have "\<forall>operation \<in> set ?ops. old_path operation \<noteq> the_log \<and> new_path operation \<noteq> the_log"
      using paths False by blast
    then show ?thesis unfolding fs2_def by (simp add: restored_fs_frame)
  qed
  then consider (same) "read_json fs2 the_log = Inr backup" | (gone) e where "read_json fs2 the_log = Inl e"
    using read_json_cong [of fs2 the_log fs backup] read_json_missing [of fs2 the_log] assms(3) rd1
    by auto
  then have "snd (restore_backup path_rename fs2 the_log) = fs2 \<and>
         (\<forall>restored errors. fst (restore_backup path_rename fs2 the_log) = Inr (restored, errors) \<longrightarrow> restored = 0)"
  proof cases
    case same
    then show ?thesis by (simp add: restore_backup_eq idem)
  next
    case gone
    then show ?thesis by (simp add: restore_backup_eq)
  qed
  then show ?thesis by (simp add: first)
qed

text \<open>Claim C6 on the first example: one file renamed, restored, and restored again.\<close>

lemma records_A:
  "records_of path_rename disk_A (generate_rename_plan disk_A core_A) =
     [\<lparr>old_name = ''IMG_0001.CR2'', new_name = ''Wedding_042.CR2'',
       old_path = [''photos'', ''raw'', ''IMG_0001.CR2''],
       new_path = [''photos'', ''raw'', ''Wedding_042.CR2''],
       status = ''success'', error = None\<rparr>]"
  unfolding plan_A by (simp add: disk_A_def record_of_def path_rename_def name_def walk_errno_def)

lemma execute_A:
  "fst (execute_rename path_rename ''20240101_120000'' ''2024-01-01T12:00:00'' disk_A core_A
          (generate_rename_plan disk_A core_A)) = Inr (1, backup_log)"
  "read_json disk_A_renamed backup_log =
     Inr \<lparr>timestamp = ''2024-01-01T12:00:00'', raw_folder = [''photos'', ''raw''],
          jpg_folder = [''photos'', ''jpg''],
          operations = records_of path_rename disk_A (generate_rename_plan disk_A core_A)\<rparr>"
  "entries disk_A_renamed [''photos'', ''raw'', ''Wedding_042.CR2'']
         = Some (RegularFile (Bytes ''raw one''))"
  "entries disk_A_renamed [''photos'', ''raw'', ''IMG_0001.CR2''] = None"
  "entries disk_A_renamed [''photos'', ''raw''] = Some Directory"
  "entries disk_A_renamed [''photos''] = Some Directory"
  "locked disk_A_renamed = {}"
proof -
  let ?plan = "generate_rename_plan disk_A core_A"
  have fs: "entries (fs_after path_rename disk_A ?plan) =
      (entries disk_A)([''photos'', ''raw'', ''IMG_0001.CR2''] := None,
         [''photos'', ''raw'', ''Wedding_042.CR2''] := Some (RegularFile (Bytes ''raw one'')))"
    unfolding plan_A by (simp add: disk_A_def path_rename_def walk_errno_def)
  have w: "walk_errno (fs_after path_rename disk_A ?plan) backup_log = None"
    "\<not> is_dir (fs_after path_rename disk_A ?plan) backup_log"
    "backup_log \<notin> locked (fs_after path_rename disk_A ?plan)"
    by (simp_all, simp_all add: backup_log_def disk_A_def walk_errno_def is_dir_def)
  have raw_A: "raw_folder_path core_A = [''photos'', ''raw'']"
    "jpg_folder_path core_A = [''photos'', ''jpg'']"
    by (simp_all add: core_A_def init_core_def)
  have h1: "joinpath [''photos'', ''raw'']
        (''rename_backup_'' @ ''20240101_120000'' @ ''.json'') = backup_log"
    by (simp add: joinpath_def backup_log_def)
  have enc: "encodable \<lparr>timestamp = ''2024-01-01T12:00:00'', raw_folder = [''photos'', ''raw''],
      jpg_folder = [''photos'', ''jpg''], operations = records_of path_rename disk_A ?plan\<rparr>"
    by (simp add: records_A encodable_def encodable_operation_def utf8_valid_def str_path_def)
  have n: "length (filter (\<lambda>r. status r = ''success'') (records_of path_rename disk_A ?plan)) = 1"
    by (simp add: records_A)
  have run: "execute_rename path_rename ''20240101_120000'' ''2024-01-01T12:00:00'' disk_A core_A ?plan =
      (Inr (1, backup_log), core_A\<lparr>log_file := Some backup_log\<rparr>,
       (fs_after path_rename disk_A ?plan)\<lparr>entries := (entries (fs_after path_rename disk_A ?plan))
          (backup_log \<mapsto> RegularFile (Json \<lparr>timestamp = ''2024-01-01T12:00:00'',
             raw_folder = [''photos'', ''raw''],
             jpg_folder = [''photos'', ''jpg''], operations = records_of path_rename disk_A ?plan\<rparr>))\<rparr>)"
    unfolding execute_rename_eq raw_A h1 write_json_ok [OF w enc] n by simp
  show "fst (execute_rename path_rename ''20240101_120000'' ''2024-01-01T12:00:00'' disk_A core_A ?plan)
      = Inr (1, backup_log)"
    by (simp add: run)
  show "read_json disk_A_renamed backup_log =
     Inr \<lparr>timestamp = ''2024-01-01T12:00:00'', raw_folder = [''photos'', ''raw''],
          jpg_folder = [''photos'', ''jpg''], operations = records_of path_rename disk_A ?plan\<rparr>"
    by (simp add: disk_A_renamed_def run read_json_def)
  show "entries disk_A_renamed [''photos'', ''raw'', ''Wedding_042.CR2'']
         = Some (RegularFile (Bytes ''raw one''))"
    "entries disk_A_renamed [''photos'', ''raw'', ''IMG_0001.CR2''] = None"
    "entries disk_A_renamed [''photos'', ''raw''] = Some Directory"
    "entries disk_A_renamed [''photos''] = Some Directory"
    "locked disk_A_renamed = {}"
    by (simp_all add: disk_A_renamed_def run fs backup_log_def, simp_all add: disk_A_def)
qed

theorem C6_restore_twice_unchanged_witness:
  "pairs core_A =
     [([''photos'', ''raw'', ''IMG_0001.CR2''], [''photos'', ''jpg'', ''Wedding_042.jpg''], 0)] \<and>
   path_exists disk_A [''photos'', ''raw'', ''IMG_0001.CR2''] \<and>
   [''photos'', ''raw'', ''IMG_0001.CR2''] \<noteq> backup_log \<and>
   fst (execute_rename path_rename ''20240101_120000'' ''2024-01-01T12:00:00'' disk_A core_A
          (generate_rename_plan disk_A core_A)) = Inr (1, backup_log) \<and>
   fst (restore_backup path_rename disk_A_renamed backup_log) = Inr (1, []) \<and>
   snd (restore_backup path_rename (snd (restore_backup path_rename disk_A_renamed backup_log)) backup_log)
     = snd (restore_backup path_rename disk_A_renamed backup_log) \<and>
   fst (restore_backup path_rename (snd (restore_backup path_rename disk_A_renamed backup_log)) backup_log) = Inr (0, [])"
proof -
  have h1: "\<forall>(raw_file, jpg_file, similarity) \<in> set (pairs core_A).
      path_exists disk_A raw_file \<and> raw_file \<noteq> backup_log"
    by (simp add: core_A_def init_core_def disk_A_def path_exists_def backup_log_def)
  have h2: "execute_rename path_rename ''20240101_120000'' ''2024-01-01T12:00:00'' disk_A core_A
          (generate_rename_plan disk_A core_A)
      = (Inr (1, backup_log),
         fst (snd (execute_rename path_rename ''20240101_120000'' ''2024-01-01T12:00:00'' disk_A core_A
          (generate_rename_plan disk_A core_A))),
         disk_A_renamed)"
    by (simp add: prod_eq_iff execute_A(1) disk_A_renamed_def)
  have h3: "read_json disk_A_renamed backup_log = read_json disk_A_renamed backup_log" by simp
  have first: "fst (restore_backup path_rename disk_A_renamed backup_log) = Inr (1, [])"
    by (simp add: restore_backup_eq execute_A records_A restore_step_def path_exists_def
        path_rename_def walk_errno_def)
  have fs2: "snd (restore_backup path_rename disk_A_renamed backup_log) =
      disk_A_renamed\<lparr>entries := (entries disk_A_renamed)
        ([''photos'', ''raw'', ''Wedding_042.CR2''] := None,
         [''photos'', ''raw'', ''IMG_0001.CR2''] := Some (RegularFile (Bytes ''raw one'')))\<rparr>"
    by (simp add: restore_backup_eq execute_A records_A restore_step_def path_exists_def
        path_rename_def walk_errno_def)
  have rd2: "read_json (snd (restore_backup path_rename disk_A_renamed backup_log)) backup_log
      = read_json disk_A_renamed backup_log"
    unfolding execute_A(2)
    by (rule read_json_cong [OF _ execute_A(2)]) (simp add: fs2, simp add: backup_log_def)
  have second: "fst (restore_backup path_rename (snd (restore_backup path_rename disk_A_renamed backup_log)) backup_log) = Inr (0, [])"
    unfolding restore_backup_eq [of path_rename "snd (restore_backup path_rename disk_A_renamed backup_log)"] rd2
    by (simp add: execute_A records_A fs2 restore_step_def path_exists_def)
  have prs: "pairs core_A =
     [([''photos'', ''raw'', ''IMG_0001.CR2''], [''photos'', ''jpg'', ''Wedding_042.jpg''], 0)]"
    by (simp add: core_A_def init_core_def)
  have here: "path_exists disk_A [''photos'', ''raw'', ''IMG_0001.CR2'']"
    "[''photos'', ''raw'', ''IMG_0001.CR2''] \<noteq> backup_log"
    by (simp_all add: disk_A_def path_exists_def backup_log_def)
  show ?thesis
    using prs here C6_restore_twice_unchanged [OF h1 h2 h3] first second execute_A(1) by blast
qed

subsection \<open>Executing and restoring\<close>

text \<open>
  When the sources of a plan are distinct regular files in existing folders, its targets
  are distinct paths that do not exist, and the log file is none of them, restoring from
  the log of the run puts every path other than the log file back to what it held before
  the run.
\<close>

lemma fs_after_frame:
  assumes "p \<notin> fst ` set plan" and "p \<notin> snd ` set plan"
  shows "entries (fs_after path_rename f plan) p = entries f p"
  using assms
proof (induction plan arbitrary: f)
  case Nil
  show ?case by simp
next
  case (Cons a rest)
  obtain old new where a: "a = (old, new)" by (cases a)
  from Cons.prems a have p: "p \<noteq> old" "p \<noteq> new" "p \<notin> fst ` set rest" "p \<notin> snd ` set rest"
    by auto
  show ?case
  proof (cases "path_rename f old new")
    case (Inl e)
    with Cons.IH [OF p(3,4), of f] a show ?thesis by simp
  next
    case (Inr f')
    with Cons.IH [OF p(3,4), of f'] a path_rename_frame [OF Inr p(1,2)] show ?thesis by simp
  qed
qed

lemma roundtrip_entries:
  assumes "distinct (map fst plan)" and "distinct (map snd plan)"
    and "fst ` set plan \<inter> snd ` set plan = {}"
    and "\<forall>(s, t) \<in> set plan. is_file fs0 s \<and> walk_errno fs0 s = None \<and> \<not> path_exists fs0 t"
    and "locked g = locked fs0" and "\<forall>q. is_dir g q = is_dir fs0 q"
    and "\<forall>p \<in> fst ` set plan \<union> snd ` set plan. entries g p = entries (fs_after path_rename fs0 plan) p"
  shows "entries (restored_fs path_rename g (records_of path_rename fs0 plan)) p =
           (if p \<in> fst ` set plan \<union> snd ` set plan then entries fs0 p else entries g p)"
  using assms
proof (induction plan arbitrary: fs0 g)
  case Nil
  show ?case by simp
next
  case (Cons a rest)
  obtain s t where a: "a = (s, t)" by (cases a)
  from Cons.prems a have d1: "distinct (map fst rest)" and d2: "distinct (map snd rest)"
    and s1: "s \<notin> fst ` set rest" and t1: "t \<notin> snd ` set rest"
    and s2: "s \<notin> snd ` set rest" and t2: "t \<notin> fst ` set rest" and st: "s \<noteq> t"
    and disj: "fst ` set rest \<inter> snd ` set rest = {}"
    by auto
  from Cons.prems(4) a have sfile: "is_file fs0 s" and sdir: "walk_errno fs0 s = None"
    and tfree: "\<not> path_exists fs0 t"
    and restok: "\<forall>(s', t') \<in> set rest.
        is_file fs0 s' \<and> walk_errno fs0 s' = None \<and> \<not> path_exists fs0 t'"
    by auto
  note gdir = Cons.prems(6)
  from sfile obtain c where c: "entries fs0 s = Some (RegularFile c)"
    by (auto simp: is_file_def split: option.splits node.splits)
  from tfree have tn: "entries fs0 t = None" by (simp add: path_exists_def)
  have gs: "entries g s = entries (fs_after path_rename fs0 (a # rest)) s"
    and gt: "entries g t = entries (fs_after path_rename fs0 (a # rest)) t"
    and grest: "\<forall>p \<in> fst ` set rest \<union> snd ` set rest.
        entries g p = entries (fs_after path_rename fs0 (a # rest)) p"
    using Cons.prems(7) a by auto
  show ?case
  proof (cases "path_rename fs0 s t")
    case (Inl e)
    have after: "fs_after path_rename fs0 (a # rest) = fs_after path_rename fs0 rest" using Inl a by simp
    have "restore_step path_rename g (record_of path_rename fs0 a) = None"
      using Inl a by (simp add: restore_step_def record_of_def)
    then have run: "restored_fs path_rename g (records_of path_rename fs0 (a # rest)) = restored_fs path_rename g (records_of path_rename fs0 rest)"
      using Inl a by simp
    have "\<forall>p \<in> fst ` set rest \<union> snd ` set rest. entries g p = entries (fs_after path_rename fs0 rest) p"
      using grest after by simp
    from Cons.IH [OF d1 d2 disj restok Cons.prems(5) gdir this]
    have ih: "entries (restored_fs path_rename g (records_of path_rename fs0 rest)) p =
        (if p \<in> fst ` set rest \<union> snd ` set rest then entries fs0 p else entries g p)" .
    have "entries g s = entries fs0 s" "entries g t = entries fs0 t"
      using gs gt after fs_after_frame [of s rest fs0] fs_after_frame [of t rest fs0] s1 s2 t1 t2
      by simp_all
    with ih run a show ?thesis by auto
  next
    case (Inr fs0')
    from path_rename_Inr [OF Inr st] c have
      unl: "s \<notin> locked fs0" "t \<notin> locked fs0"
      and fs0': "fs0' = fs0\<lparr>entries := (entries fs0)(s := None, t := Some (RegularFile c))\<rparr>"
      by auto
    have after: "fs_after path_rename fs0 (a # rest) = fs_after path_rename fs0' rest" using Inr a by simp
    have "entries (fs_after path_rename fs0' rest) s = entries fs0' s" "entries (fs_after path_rename fs0' rest) t = entries fs0' t"
      using s1 s2 t1 t2 by (simp_all add: fs_after_frame)
    with gs gt after fs0' st have gs': "entries g s = None" and gt': "entries g t = Some (RegularFile c)"
      by simp_all
    define g' where "g' = g\<lparr>entries := (entries g)(t := None, s := Some (RegularFile c))\<rparr>"
    have "walk_errno g s = None"
      using sdir walk_errno_cong [OF gdir, of s] by simp
    then have "path_rename g t s = Inr g'"
      using gs' gt' unl st Cons.prems(5) by (simp add: path_rename_def g'_def)
    then have step: "restore_step path_rename g (record_of path_rename fs0 a) = Some (Inr g')"
      using Inr a gt' by (simp add: restore_step_def record_of_def path_exists_def)
    have run: "restored_fs path_rename g (records_of path_rename fs0 (a # rest)) = restored_fs path_rename g' (records_of path_rename fs0' rest)"
      using step Inr a by simp
    have dir0: "is_dir fs0' q = is_dir fs0 q" for q
      using Inr by (rule path_rename_is_dir)
    have restok': "\<forall>(s', t') \<in> set rest.
        is_file fs0' s' \<and> walk_errno fs0' s' = None \<and> \<not> path_exists fs0' t'"
    proof (clarify)
      fix s' t' assume m: "(s', t') \<in> set rest"
      then have "s' \<in> fst ` set rest" "t' \<in> snd ` set rest" by force+
      with s1 s2 t1 t2 have "s' \<noteq> s" "s' \<noteq> t" "t' \<noteq> s" "t' \<noteq> t" by auto
      with restok m have "is_file fs0' s' \<and> \<not> path_exists fs0' t'"
        by (auto simp: fs0' is_file_def path_exists_def)
      moreover from restok m have "walk_errno fs0' s' = None"
        using walk_errno_cong [of fs0' fs0 s'] by (auto simp: dir0)
      ultimately show "is_file fs0' s' \<and> walk_errno fs0' s' = None \<and> \<not> path_exists fs0' t'"
        by simp
    qed
    have gdir': "\<forall>q. is_dir g' q = is_dir fs0' q"
    proof
      fix q
      have "is_dir g' q = is_dir g q"
        using gs' gt' by (auto simp: g'_def is_dir_def)
      with gdir show "is_dir g' q = is_dir fs0' q" by (simp add: dir0)
    qed
    have lk': "locked g' = locked fs0'" using Cons.prems(5) by (simp add: g'_def fs0')
    have grest': "\<forall>p \<in> fst ` set rest \<union> snd ` set rest. entries g' p = entries (fs_after path_rename fs0' rest) p"
    proof
      fix p assume p: "p \<in> fst ` set rest \<union> snd ` set rest"
      with s1 s2 t1 t2 have "p \<noteq> s" "p \<noteq> t" by auto
      then have "entries g' p = entries g p" by (simp add: g'_def)
      with grest p after show "entries g' p = entries (fs_after path_rename fs0' rest) p" by simp
    qed
    from Cons.IH [OF d1 d2 disj restok' lk' gdir' grest']
    have ih: "entries (restored_fs path_rename g' (records_of path_rename fs0' rest)) p =
        (if p \<in> fst ` set rest \<union> snd ` set rest then entries fs0' p else entries g' p)" .
    show ?thesis
    proof (cases "p \<in> fst ` set rest \<union> snd ` set rest")
      case True
      with s1 s2 t1 t2 have "p \<noteq> s" "p \<noteq> t" by auto
      with True ih run a show ?thesis by (simp add: fs0')
    next
      case False
      with ih run a c tn st show ?thesis by (auto simp: g'_def)
    qed
  qed
qed

lemma execute_rename_Inr_entries:
  assumes "execute_rename rename stamp isotime fs0 core plan = (Inr (n, the_log), core', fs1)"
  shows "locked fs1 = locked (fs_after rename fs0 plan) \<and>
         (\<forall>q. is_dir fs1 q = is_dir (fs_after rename fs0 plan) q) \<and>
         (\<forall>p. p \<noteq> the_log \<longrightarrow> entries fs1 p = entries (fs_after rename fs0 plan) p)"
proof -
  let ?log = "joinpath (raw_folder_path core) (''rename_backup_'' @ stamp @ ''.json'')"
  let ?backup = "\<lparr>timestamp = isotime, raw_folder = raw_folder_path core,
      jpg_folder = jpg_folder_path core, operations = records_of rename fs0 plan\<rparr>"
  from assms have "write_json (fs_after rename fs0 plan) ?log ?backup = (None, fs1)"
    and "the_log = ?log"
    by (auto simp: execute_rename_eq split: prod.splits option.splits)
  then show ?thesis
    by (auto simp: write_json_def is_dir_def split: option.splits if_splits)
qed

lemma roundtrip_distinct_targets:
  assumes "distinct (map fst plan)" and "distinct (map snd plan)"
    and "fst ` set plan \<inter> snd ` set plan = {}"
    and "\<forall>(s, t) \<in> set plan. is_file fs0 s \<and> walk_errno fs0 s = None \<and> \<not> path_exists fs0 t"
    and "the_log \<notin> fst ` set plan \<union> snd ` set plan"
    and "execute_rename path_rename stamp isotime fs0 core plan = (Inr (n, the_log), core', fs1)"
    and "p \<noteq> the_log"
  shows "entries (snd (restore_backup path_rename fs1 the_log)) p = entries fs0 p"
proof -
  from execute_rename_Inr [OF assms(6)] obtain backup where
    rd: "read_json fs1 the_log = Inr backup" and ops: "operations backup = records_of path_rename fs0 plan"
    by blast
  from execute_rename_Inr_entries [OF assms(6)] have lk: "locked fs1 = locked fs0"
    and dirs: "\<forall>q. is_dir fs1 q = is_dir fs0 q"
    and ent: "\<And>q. q \<noteq> the_log \<Longrightarrow> entries fs1 q = entries (fs_after path_rename fs0 plan) q"
    by simp_all
  have agree: "\<forall>q \<in> fst ` set plan \<union> snd ` set plan. entries fs1 q = entries (fs_after path_rename fs0 plan) q"
  proof
    fix q assume "q \<in> fst ` set plan \<union> snd ` set plan"
    with assms(5) have "q \<noteq> the_log" by blast
    then show "entries fs1 q = entries (fs_after path_rename fs0 plan) q" by (rule ent)
  qed
  have "entries (restored_fs path_rename fs1 (records_of path_rename fs0 plan)) p =
      (if p \<in> fst ` set plan \<union> snd ` set plan then entries fs0 p else entries fs1 p)"
    by (rule roundtrip_entries [OF assms(1-4) lk dirs agree])
  moreover have "entries fs1 p = entries fs0 p" if "p \<notin> fst ` set plan \<union> snd ` set plan"
    using ent [OF assms(7)] that by (simp add: fs_after_frame)
  ultimately show ?thesis
    using rd ops by (simp add: restore_backup_eq)
qed

text \<open>The burst example, step by step.\<close>

lemma scan_D:
  "scan_files listdir_D disk_D (init_core [''photos'', ''raw''] [''photos'', ''jpg''] 5)
     = (Inr (2, 1), core_D)"
  by code_simp

lemma find_pairs_D:
  "fst (find_pairs calc_D core_D) =
     [([''photos'', ''raw'', ''IMG_0001.CR2''], [''photos'', ''jpg'', ''Wedding_042.jpg''], enat 2),
      ([''photos'', ''raw'', ''IMG_0002.CR2''], [''photos'', ''jpg'', ''Wedding_042.jpg''], enat 3)]"
  by (simp add: find_pairs_def core_D_def init_core_def calc_D_def hash_sub_examples)

lemma plan_D_eq:
  "generate_rename_plan disk_D (snd (find_pairs calc_D core_D)) = plan_D"
proof -
  have "pairs (snd (find_pairs calc_D core_D)) = fst (find_pairs calc_D core_D)"
    by (simp add: find_pairs_eq)
  then show ?thesis
    by (simp add: generate_rename_plan_def find_pairs_D disk_D_def path_exists_def plan_D_def
      stem_def path_suffix_def name_def rfind_dot_def parent_def joinpath_def Let_def)
qed

lemma records_D:
  "records_of path_rename disk_D plan_D =
     [\<lparr>old_name = ''IMG_0001.CR2'', new_name = ''Wedding_042.CR2'',
       old_path = [''photos'', ''raw'', ''IMG_0001.CR2''],
       new_path = [''photos'', ''raw'', ''Wedding_042.CR2''],
       status = ''success'', error = None\<rparr>,
      \<lparr>old_name = ''IMG_0002.CR2'', new_name = ''Wedding_042.CR2'',
       old_path = [''photos'', ''raw'', ''IMG_0002.CR2''],
       new_path = [''photos'', ''raw'', ''Wedding_042.CR2''],
       status = ''success'', error = None\<rparr>]"
  by (simp add: plan_D_def disk_D_def record_of_def path_rename_def name_def walk_errno_def)

lemma execute_D:
  "fst (execute_rename path_rename ''20240101_120000'' ''2024-01-01T12:00:00'' disk_D
          (snd (find_pairs calc_D core_D)) plan_D) = Inr (2, backup_log)"
  "read_json disk_D_renamed backup_log =
     Inr \<lparr>timestamp = ''2024-01-01T12:00:00'', raw_folder = [''photos'', ''raw''],
          jpg_folder = [''photos'', ''jpg''], operations = records_of path_rename disk_D plan_D\<rparr>"
  "entries disk_D_renamed [''photos'', ''raw'', ''Wedding_042.CR2'']
         = Some (RegularFile (Bytes ''burst two''))"
  "entries disk_D_renamed [''photos'', ''raw'', ''IMG_0001.CR2''] = None"
  "entries disk_D_renamed [''photos'', ''raw'', ''IMG_0002.CR2''] = None"
  "entries disk_D_renamed [''photos'', ''raw''] = Some Directory"
  "entries disk_D_renamed [''photos''] = Some Directory"
  "locked disk_D_renamed = {}"
proof -
  have fs: "entries (fs_after path_rename disk_D plan_D) =
      (entries disk_D)([''photos'', ''raw'', ''IMG_0001.CR2''] := None,
         [''photos'', ''raw'', ''Wedding_042.CR2''] := Some (RegularFile (Bytes ''burst one'')),
         [''photos'', ''raw'', ''IMG_0002.CR2''] := None,
         [''photos'', ''raw'', ''Wedding_042.CR2''] := Some (RegularFile (Bytes ''burst two'')))"
    and lk: "locked (fs_after path_rename disk_D plan_D) = {}"
    by (simp_all add: plan_D_def disk_D_def path_rename_def walk_errno_def)
  have w: "walk_errno (fs_after path_rename disk_D plan_D) backup_log = None"
    "\<not> is_dir (fs_after path_rename disk_D plan_D) backup_log"
    "backup_log \<notin> locked (fs_after path_rename disk_D plan_D)"
    by (simp_all, simp_all add: backup_log_def disk_D_def walk_errno_def is_dir_def)
  have h1: "joinpath [''photos'', ''raw'']
        (''rename_backup_'' @ ''20240101_120000'' @ ''.json'') = backup_log"
    and folders: "raw_folder_path (snd (find_pairs calc_D core_D)) = [''photos'', ''raw'']"
      "jpg_folder_path (snd (find_pairs calc_D core_D)) = [''photos'', ''jpg'']"
    by (simp_all add: find_pairs_eq core_D_def init_core_def joinpath_def backup_log_def)
  have enc: "encodable \<lparr>timestamp = ''2024-01-01T12:00:00'', raw_folder = [''photos'', ''raw''],
      jpg_folder = [''photos'', ''jpg''], operations = records_of path_rename disk_D plan_D\<rparr>"
    by (simp add: records_D encodable_def encodable_operation_def utf8_valid_def str_path_def)
  have n: "length (filter (\<lambda>r. status r = ''success'') (records_of path_rename disk_D plan_D)) = 2"
    by (simp add: records_D)
  have run: "execute_rename path_rename ''20240101_120000'' ''2024-01-01T12:00:00'' disk_D
          (snd (find_pairs calc_D core_D)) plan_D =
      (Inr (2, backup_log), (snd (find_pairs calc_D core_D))\<lparr>log_file := Some backup_log\<rparr>,
       (fs_after path_rename disk_D plan_D)\<lparr>entries := (entries (fs_after path_rename disk_D plan_D))
          (backup_log \<mapsto> RegularFile (Json \<lparr>timestamp = ''2024-01-01T12:00:00'',
             raw_folder = [''photos'', ''raw''],
             jpg_folder = [''photos'', ''jpg''], operations = records_of path_rename disk_D plan_D\<rparr>))\<rparr>)"
    unfolding execute_rename_eq folders h1 write_json_ok [OF w enc] n by simp
  show "fst (execute_rename path_rename ''20240101_120000'' ''2024-01-01T12:00:00'' disk_D
          (snd (find_pairs calc_D core_D)) plan_D) = Inr (2, backup_log)"
    by (simp add: run)
  show "read_json disk_D_renamed backup_log =
     Inr \<lparr>timestamp = ''2024-01-01T12:00:00'', raw_folder = [''photos'', ''raw''],
          jpg_folder = [''photos'', ''jpg''], operations = records_of path_rename disk_D plan_D\<rparr>"
    by (simp add: disk_D_renamed_def run read_json_def)
  show "entries disk_D_renamed [''photos'', ''raw'', ''Wedding_042.CR2'']
         = Some (RegularFile (Bytes ''burst two''))"
    "entries disk_D_renamed [''photos'', ''raw'', ''IMG_0001.CR2''] = None"
    "entries disk_D_renamed [''photos'', ''raw'', ''IMG_0002.CR2''] = None"
    "entries disk_D_renamed [''photos'', ''raw''] = Some Directory"
    "entries disk_D_renamed [''photos''] = Some Directory"
    "locked disk_D_renamed = {}"
    by (simp_all add: disk_D_renamed_def run fs backup_log_def, simp_all add: disk_D_def)
qed

lemma entries_disk_D:
  "entries disk_D [''photos'', ''raw'', ''IMG_0001.CR2''] = Some (RegularFile (Bytes ''burst one''))"
  "entries disk_D [''photos'', ''raw'', ''IMG_0002.CR2''] = Some (RegularFile (Bytes ''burst two''))"
  by (simp_all add: disk_D_def)

text \<open>
  Claim C2 on the burst example. The scan finds the two RAW files, both are paired with
  the one JPG file and planned to the same target, both renames succeed and are logged
  with status success (the second replaces the file the first one made), and restoring
  from the log of the run restores one file only: the first RAW path holds the contents
  of the second RAW file, and the second RAW path holds nothing.
\<close>

theorem C2_same_target_lost_on_restore:
  "snd (scan_files listdir_D disk_D (init_core [''photos'', ''raw''] [''photos'', ''jpg''] 5)) = core_D \<and>
   generate_rename_plan disk_D (snd (find_pairs calc_D core_D)) = plan_D \<and>
   fst (execute_rename path_rename ''20240101_120000'' ''2024-01-01T12:00:00'' disk_D
          (snd (find_pairs calc_D core_D)) plan_D) = Inr (2, backup_log) \<and>
   read_json disk_D_renamed backup_log =
     Inr \<lparr>timestamp = ''2024-01-01T12:00:00'', raw_folder = [''photos'', ''raw''],
          jpg_folder = [''photos'', ''jpg''], operations = records_of path_rename disk_D plan_D\<rparr> \<and>
   map status (records_of path_rename disk_D plan_D) = [''success'', ''success''] \<and>
   fst (restore_backup path_rename disk_D_renamed backup_log) = Inr (1, []) \<and>
   entries disk_D [''photos'', ''raw'', ''IMG_0001.CR2''] = Some (RegularFile (Bytes ''burst one'')) \<and>
   entries disk_D [''photos'', ''raw'', ''IMG_0002.CR2''] = Some (RegularFile (Bytes ''burst two'')) \<and>
   entries disk_D_restored [''photos'', ''raw'', ''IMG_0001.CR2'']
     = Some (RegularFile (Bytes ''burst two'')) \<and>
   entries disk_D_restored [''photos'', ''raw'', ''IMG_0002.CR2''] = None"
proof -
  have rs: "restored_fs path_rename disk_D_renamed (records_of path_rename disk_D plan_D) =
      disk_D_renamed\<lparr>entries := (entries disk_D_renamed)
        ([''photos'', ''raw'', ''Wedding_042.CR2''] := None,
         [''photos'', ''raw'', ''IMG_0001.CR2''] := Some (RegularFile (Bytes ''burst two'')))\<rparr>"
    unfolding records_D
    by (simp add: restore_step_def path_exists_def path_rename_def execute_D walk_errno_def)
  have rc: "restored_count path_rename disk_D_renamed (records_of path_rename disk_D plan_D) = 1"
    unfolding records_D
    by (simp add: restore_step_def path_exists_def path_rename_def execute_D walk_errno_def)
  have re: "restore_errors path_rename disk_D_renamed (records_of path_rename disk_D plan_D) = []"
    unfolding records_D
    by (simp add: restore_step_def path_exists_def path_rename_def execute_D walk_errno_def)
  have st: "map status (records_of path_rename disk_D plan_D) = [''success'', ''success'']"
    by (simp add: records_D)
  show ?thesis
    by (simp add: scan_D plan_D_eq execute_D entries_disk_D disk_D_restored_def restore_backup_eq
        rs rc re st)
qed

end
